theory Spec2Isabelle
  imports Main
begin

section \<open>JavaScript values\<close>

text \<open>
  The values server.js handles: what \<open>express.json()\<close> puts into \<open>req.body\<close>, what the
  database client returns as \<open>data\<close>, and what a handler passes to \<open>res.json\<close>.
  \<open>Undefined\<close> is the value of a property that is absent. Numbers are the integers;
  only their order and whether they are zero is ever looked at.
\<close>

datatype jsval =
    Undefined
  | Null
  | Bool bool
  | Num int
  | Str string
  | Arr "jsval list"
  | Obj "(string \<times> jsval) list"

type_synonym obj = "(string \<times> jsval) list"

text \<open>\<open>o.k\<close>: the value of property \<open>k\<close>, \<open>undefined\<close> when the object has none.\<close>

definition field :: "obj \<Rightarrow> string \<Rightarrow> jsval" where
  "field ob k = (case map_of ob k of None \<Rightarrow> Undefined | Some v \<Rightarrow> v)"

text \<open>\<open>o.k = v\<close>: an existing property keeps its place, a new one goes last.\<close>

fun assign :: "string \<Rightarrow> jsval \<Rightarrow> obj \<Rightarrow> obj" where
  "assign k v [] = [(k, v)]"
| "assign k v ((k', v') # ob) =
     (if k' = k then (k, v) # ob else (k', v') # assign k v ob)"

text \<open>JavaScript truthiness, as \<open>!x\<close>, \<open>x ? a : b\<close> and \<open>x || y\<close> use it.\<close>

fun truthy :: "jsval \<Rightarrow> bool" where
  "truthy Undefined = False"
| "truthy Null = False"
| "truthy (Bool b) = b"
| "truthy (Num n) = (n \<noteq> 0)"
| "truthy (Str s) = (s \<noteq> [])"
| "truthy (Arr xs) = True"
| "truthy (Obj fs) = True"

text \<open>
  Whether a value has a property named \<open>k\<close> at any depth: the test applied to a response
  body to see whether it carries a given field.
\<close>

fun mentions :: "string \<Rightarrow> jsval \<Rightarrow> bool"
  and mentions_list :: "string \<Rightarrow> jsval list \<Rightarrow> bool"
  and mentions_fields :: "string \<Rightarrow> obj \<Rightarrow> bool" where
  "mentions k (Arr xs) = mentions_list k xs"
| "mentions k (Obj fs) = mentions_fields k fs"
| "mentions k Undefined = False"
| "mentions k Null = False"
| "mentions k (Bool b) = False"
| "mentions k (Num n) = False"
| "mentions k (Str s) = False"
| "mentions_list k [] = False"
| "mentions_list k (x # xs) = (mentions k x \<or> mentions_list k xs)"
| "mentions_fields k [] = False"
| "mentions_fields k ((k', v) # fs) = (k' = k \<or> mentions k v \<or> mentions_fields k fs)"

section \<open>The database service\<close>

text \<open>
  server.js reaches the database only through the supabase client: \<open>from(table)\<close> followed
  by \<open>insert\<close>, \<open>select\<close>, \<open>update\<close> or \<open>delete\<close>, the filter \<open>eq\<close>, \<open>order\<close> and \<open>single\<close>.
  The client is not part of the repository. It is modelled as tables of rows, a row being
  an object with one property for each column.

  Every call may fail on the side of the service (unreachable, constraint violated):
  \<open>faults\<close> is the script of what the coming calls meet, one entry for each call in the
  order they are made, \<open>None\<close> where the service answers; a script that has run out
  means the service answers. \<open>calls\<close> counts the calls made so far.

  \<open>defaults\<close> gives each table the row of its column defaults, \<open>uuid\<close> and \<open>fresh\<close> the
  identifiers the service hands out, \<open>clock\<close> the \<open>created_at\<close> stamp of the next row.
\<close>

datatype table = Profiles | Checklists | Tasks | ShareRequests | TimerLogs

datatype db_error = DbError (code: string) (message: string)

record world =
  rows :: "table \<Rightarrow> obj list"
  defaults :: "table \<Rightarrow> obj"
  uuid :: "nat \<Rightarrow> string"
  fresh :: nat
  clock :: int
  faults :: "db_error option list"
  calls :: nat

text \<open>What the \<open>i\<close>-th of the coming calls meets.\<close>

definition fault_at :: "world \<Rightarrow> nat \<Rightarrow> db_error option" where
  "fault_at w i = (if i < length (faults w) then faults w ! i else None)"

text \<open>The service answers every coming call.\<close>

definition healthy :: "world \<Rightarrow> bool" where
  "healthy w = (\<forall>f \<in> set (faults w). f = None)"

text \<open>The start of one round trip to the service: read its entry of the script, count it.\<close>

definition advance :: "world \<Rightarrow> world" where
  "advance w = w\<lparr>faults := tl (faults w), calls := Suc (calls w)\<rparr>"

definition db_call :: "world \<Rightarrow> db_error option \<times> world" where
  "db_call w = (fault_at w 0, advance w)"

text \<open>
  \<open>.eq(column, value)\<close>. Values are compared as they are; a filter on \<open>null\<close> or
  \<open>undefined\<close> matches no row, as \<open>column = NULL\<close> does in SQL.
\<close>

definition eq :: "string \<Rightarrow> jsval \<Rightarrow> obj \<Rightarrow> bool" where
  "eq column v r = (v \<noteq> Undefined \<and> v \<noteq> Null \<and> field r column = v)"

text \<open>\<open>.select('a, b, c')\<close>: the listed columns of a row.\<close>

definition project :: "string list \<Rightarrow> obj \<Rightarrow> obj" where
  "project cols r = filter (\<lambda>(k, v). k \<in> set cols) r"

text \<open>
  \<open>.order(column, { ascending })\<close>: a stable insertion sort on the numbers of the column
  (time stamps are numbers here); rows without a number there go last when ascending
  and first when descending.
\<close>

definition asc_le :: "string \<Rightarrow> obj \<Rightarrow> obj \<Rightarrow> bool" where
  "asc_le column a b =
     (case (field a column, field b column) of
        (Num x, Num y) \<Rightarrow> x \<le> y
      | (Num x, _) \<Rightarrow> True
      | (_, Num y) \<Rightarrow> False
      | (_, _) \<Rightarrow> True)"

fun insort_by :: "(obj \<Rightarrow> obj \<Rightarrow> bool) \<Rightarrow> obj \<Rightarrow> obj list \<Rightarrow> obj list" where
  "insort_by le x [] = [x]"
| "insort_by le x (y # ys) = (if le x y then x # y # ys else y # insort_by le x ys)"

definition order :: "string \<Rightarrow> bool \<Rightarrow> obj list \<Rightarrow> obj list" where
  "order column ascending rs =
     foldr (insort_by (if ascending then asc_le column
                       else (\<lambda>a b. asc_le column b a))) rs []"

text \<open>\<open>.single()\<close>: exactly one row, or the error PGRST116.\<close>

definition single :: "obj list \<Rightarrow> db_error + obj" where
  "single rs =
     (case rs of
        [r] \<Rightarrow> Inr r
      | _ \<Rightarrow> Inl (DbError ''PGRST116'' ''JSON object requested, multiple (or no) rows returned''))"

text \<open>\<open>from(t).select(...)\<close> with the filter \<open>p\<close>: the matching rows, in table order.\<close>

definition db_select :: "table \<Rightarrow> (obj \<Rightarrow> bool) \<Rightarrow> world \<Rightarrow> (db_error + obj list) \<times> world" where
  "db_select t p w =
     (case db_call w of
        (Some e, w') \<Rightarrow> (Inl e, w')
      | (None, w') \<Rightarrow> (Inr (filter p (rows w' t)), w'))"

definition db_select_single :: "table \<Rightarrow> (obj \<Rightarrow> bool) \<Rightarrow> world \<Rightarrow> (db_error + obj) \<times> world" where
  "db_select_single t p w =
     (case db_select t p w of
        (Inl e, w') \<Rightarrow> (Inl e, w')
      | (Inr rs, w') \<Rightarrow> (single rs, w'))"

text \<open>
  The row \<open>from(t).insert([ob])\<close> stores: the column defaults, a new \<open>id\<close> and
  \<open>created_at\<close>, and over them the properties of \<open>ob\<close>. A property whose value is
  \<open>undefined\<close> is not in the JSON payload, but its name is among the columns the client
  announces for the insert, so the row gets \<open>null\<close> there.
\<close>

definition nullish :: "jsval \<Rightarrow> jsval" where
  "nullish v = (if v = Undefined then Null else v)"

fun overlay :: "obj \<Rightarrow> obj \<Rightarrow> obj" where
  "overlay [] r = r"
| "overlay ((k, v) # kvs) r = overlay kvs (assign k (nullish v) r)"

definition stored :: "table \<Rightarrow> obj \<Rightarrow> world \<Rightarrow> obj" where
  "stored t ob w =
     overlay ob
       (assign ''created_at'' (Num (clock w))
         (assign ''id'' (Str (uuid w (fresh w))) (defaults w t)))"

text \<open>\<open>from(t).insert([ob]).select().single()\<close>: the stored row comes back.\<close>

definition db_insert :: "table \<Rightarrow> obj \<Rightarrow> world \<Rightarrow> (db_error + obj) \<times> world" where
  "db_insert t ob w =
     (case db_call w of
        (Some e, w') \<Rightarrow> (Inl e, w')
      | (None, w') \<Rightarrow>
          (let r = stored t ob w' in
           (Inr r, w'\<lparr>rows := (rows w')(t := rows w' t @ [r]),
                      fresh := Suc (fresh w'),
                      clock := clock w' + 1\<rparr>)))"

text \<open>
  The properties an update sends: \<open>JSON.stringify\<close> drops those that are \<open>undefined\<close>.
\<close>

definition sent :: "obj \<Rightarrow> obj" where
  "sent ob = filter (\<lambda>(k, v). v \<noteq> Undefined) ob"

text \<open>\<open>from(t).update(ob).eq(...)\<close> with no \<open>select\<close>: every matching row is changed.\<close>

definition db_update :: "table \<Rightarrow> obj \<Rightarrow> (obj \<Rightarrow> bool) \<Rightarrow> world \<Rightarrow> db_error option \<times> world" where
  "db_update t ob p w =
     (case db_call w of
        (Some e, w') \<Rightarrow> (Some e, w')
      | (None, w') \<Rightarrow>
          (None, w'\<lparr>rows := (rows w')(t := map (\<lambda>r. if p r then overlay (sent ob) r else r)
                                               (rows w' t))\<rparr>))"

text \<open>
  \<open>from(t).update(ob).eq(...).select().single()\<close>: the one matching row is changed and
  comes back; with no or several matching rows the request fails as a whole and the
  table stays as it was.
\<close>

definition db_update_single :: "table \<Rightarrow> obj \<Rightarrow> (obj \<Rightarrow> bool) \<Rightarrow> world \<Rightarrow> (db_error + obj) \<times> world" where
  "db_update_single t ob p w =
     (case db_call w of
        (Some e, w') \<Rightarrow> (Inl e, w')
      | (None, w') \<Rightarrow>
          (case single (filter p (rows w' t)) of
             Inl e \<Rightarrow> (Inl e, w')
           | Inr r \<Rightarrow>
               (Inr (overlay (sent ob) r),
                w'\<lparr>rows := (rows w')(t := map (\<lambda>r. if p r then overlay (sent ob) r else r)
                                              (rows w' t))\<rparr>)))"

text \<open>\<open>from(t).delete().eq(...)\<close>.\<close>

definition db_delete :: "table \<Rightarrow> (obj \<Rightarrow> bool) \<Rightarrow> world \<Rightarrow> db_error option \<times> world" where
  "db_delete t p w =
     (case db_call w of
        (Some e, w') \<Rightarrow> (Some e, w')
      | (None, w') \<Rightarrow> (None, w'\<lparr>rows := (rows w')(t := filter (\<lambda>r. \<not> p r) (rows w' t))\<rparr>))"

section \<open>Requests and responses\<close>

record request =
  params_id :: string
  body :: obj
  query :: obj

record response =
  status :: nat
  payload :: jsval

text \<open>\<open>res.status(s).json(v)\<close>, \<open>res.json(v)\<close>, \<open>res.status(s).send()\<close> and the error body.\<close>

definition json :: "nat \<Rightarrow> jsval \<Rightarrow> response option" where
  "json s v = Some \<lparr>status = s, payload = v\<rparr>"

definition send :: "nat \<Rightarrow> response option" where
  "send s = Some \<lparr>status = s, payload = Undefined\<rparr>"

definition error_body :: "string \<Rightarrow> jsval" where
  "error_body msg = Obj [(''error'', Str msg)]"

section \<open>Responding to a share request\<close>

text \<open>
  \<open>POST /api/share-requests/:id/respond\<close>. \<open>idMap\<close> is the object the clone loop fills
  with \<open>idMap[task.id] = newTask.id\<close>. Its keys are kept as the identifiers themselves:
  the identifiers of one column have one type, on which the conversion to a property
  name is one-to-one, and none of them is the name of a member of \<open>Object.prototype\<close>.
\<close>

type_synonym idmap = "jsval \<rightharpoonup> jsval"

text \<open>\<open>idMap[k]\<close>: \<open>undefined\<close> for a key that was never set.\<close>

definition lookup :: "idmap \<Rightarrow> jsval \<Rightarrow> jsval" where
  "lookup idMap k = (case idMap k of None \<Rightarrow> Undefined | Some v \<Rightarrow> v)"

definition newTaskData :: "obj \<Rightarrow> idmap \<Rightarrow> obj \<Rightarrow> obj" where
  "newTaskData newChecklist idMap task =
     [(''checklist_id'', field newChecklist ''id''),
      (''parent_id'', if truthy (field task ''parent_id'')
                      then lookup idMap (field task ''parent_id'') else Null),
      (''title'', field task ''title''),
      (''description'', field task ''description''),
      (''order_num'', field task ''order_num''),
      (''start_time'', field task ''start_time''),
      (''end_time'', field task ''end_time''),
      (''allocated_time'', field task ''allocated_time''),
      (''is_completed'', field task ''is_completed'')]"

text \<open>
  The loop \<open>for (const task of tasks)\<close>: one insert for each task; the mapping grows
  only when the insert came back without an error.
\<close>

fun clone_tasks :: "obj \<Rightarrow> obj list \<Rightarrow> idmap \<Rightarrow> world \<Rightarrow> idmap \<times> world" where
  "clone_tasks newChecklist [] idMap w = (idMap, w)"
| "clone_tasks newChecklist (task # tasks) idMap w =
     (case db_insert Tasks (newTaskData newChecklist idMap task) w of
        (Inl nTError, w') \<Rightarrow> clone_tasks newChecklist tasks idMap w'
      | (Inr newTask, w') \<Rightarrow>
          clone_tasks newChecklist tasks (idMap(field task ''id'' \<mapsto> field newTask ''id'')) w')"

text \<open>The branch \<open>if (action === 'accept')\<close>, entered after the status has been written.\<close>

definition accept :: "obj \<Rightarrow> world \<Rightarrow> response option \<times> world" where
  "accept request w =
     (case db_select_single Checklists (eq ''id'' (field request ''checklist_id'')) w of
        (Inl clError, w1) \<Rightarrow> (json 500 (error_body (message clError)), w1)
      | (Inr originalChecklist, w1) \<Rightarrow>
     (case db_insert Checklists
             [(''profile_id'', field request ''receiver_id''),
              (''title'', field originalChecklist ''title''),
              (''is_shared_copy'', Bool True)] w1 of
        (Inl newClError, w2) \<Rightarrow> (json 500 (error_body (message newClError)), w2)
      | (Inr newChecklist, w2) \<Rightarrow>
     (case db_select Tasks (eq ''checklist_id'' (field request ''checklist_id'')) w2 of
        (Inl tasksError, w3) \<Rightarrow> (json 500 (error_body (message tasksError)), w3)
      | (Inr rs, w3) \<Rightarrow>
          (let tasks = order ''created_at'' True rs;
               (idMap, w4) = clone_tasks newChecklist tasks Map.empty w3
           in (json 200 (Obj [(''message'', Str ''Accepted and cloned checklist'')]), w4)))))"

definition respond :: "request \<Rightarrow> world \<Rightarrow> response option \<times> world" where
  "respond req w =
     (let action = field (body req) ''action'' in
      if action \<noteq> Str ''accept'' \<and> action \<noteq> Str ''reject''
      then (json 400 (error_body ''Invalid action''), w)
      else
     (case db_select_single ShareRequests (eq ''id'' (Str (params_id req))) w of
        (Inl reqError, w1) \<Rightarrow> (json 404 (error_body ''Request not found''), w1)
      | (Inr request, w1) \<Rightarrow>
          if field request ''status'' \<noteq> Str ''pending''
          then (json 400 (error_body ''Request already processed''), w1)
          else
     (case db_update ShareRequests
             [(''status'', Str (if action = Str ''accept'' then ''accepted'' else ''rejected''))]
             (eq ''id'' (Str (params_id req))) w1 of
        (Some updateError, w2) \<Rightarrow> (json 500 (error_body (message updateError)), w2)
      | (None, w2) \<Rightarrow>
          if action = Str ''accept'' then accept request w2
          else (json 200 (Obj [(''message'', Str ''Rejected share request'')]), w2))))"

text \<open>
  The handler waits for the database between its statements, and the requests of other
  callers are served meanwhile. \<open>respond_check\<close> is the handler up to the check of the
  status (lines 239 to 249: the request is read), \<open>respond_write\<close> is the rest of it (lines
  251 to 314: the status is written and, on accept, the checklist cloned). \<open>respond\<close> is
  the first followed at once by the second.
\<close>

definition respond_check :: "request \<Rightarrow> world \<Rightarrow> (response option + obj) \<times> world" where
  "respond_check req w =
     (let action = field (body req) ''action'' in
      if action \<noteq> Str ''accept'' \<and> action \<noteq> Str ''reject''
      then (Inl (json 400 (error_body ''Invalid action'')), w)
      else
     (case db_select_single ShareRequests (eq ''id'' (Str (params_id req))) w of
        (Inl reqError, w1) \<Rightarrow> (Inl (json 404 (error_body ''Request not found'')), w1)
      | (Inr request, w1) \<Rightarrow>
          if field request ''status'' \<noteq> Str ''pending''
          then (Inl (json 400 (error_body ''Request already processed'')), w1)
          else (Inr request, w1)))"

definition respond_write :: "request \<Rightarrow> obj \<Rightarrow> world \<Rightarrow> response option \<times> world" where
  "respond_write req request w1 =
     (let action = field (body req) ''action'' in
      case db_update ShareRequests
             [(''status'', Str (if action = Str ''accept'' then ''accepted'' else ''rejected''))]
             (eq ''id'' (Str (params_id req))) w1 of
        (Some updateError, w2) \<Rightarrow> (json 500 (error_body (message updateError)), w2)
      | (None, w2) \<Rightarrow>
          if action = Str ''accept'' then accept request w2
          else (json 200 (Obj [(''message'', Str ''Rejected share request'')]), w2))"

section \<open>The other routes\<close>

text \<open>
  \<open>bcryptjs\<close> is an external library: \<open>bcrypt_hash\<close> stands for \<open>genSalt\<close> followed by
  \<open>hash\<close> (\<open>Inl\<close> the message of the error it throws, as it does for a password that is
  not a string), \<open>bcrypt_compare\<close> for \<open>compare\<close> (\<open>None\<close> when it throws).

  A handler returns the response it sends and the world it leaves. The response is
  \<open>None\<close> when a promise awaited outside any \<open>try\<close> rejects: the handler then ends
  without having answered.
\<close>

record crypto =
  bcrypt_hash :: "jsval \<Rightarrow> string + string"
  bcrypt_compare :: "jsval \<Rightarrow> jsval \<Rightarrow> bool option"

definition public_columns :: "string list" where
  "public_columns = [''id'', ''name'', ''avatar_url'', ''created_at'']"

text \<open>\<open>const { k, ...rest } = ob\<close>: the object without the property \<open>k\<close>.\<close>

definition without :: "string \<Rightarrow> obj \<Rightarrow> obj" where
  "without k ob = filter (\<lambda>(k', v). k' \<noteq> k) ob"

text \<open>\<open>POST /api/profiles\<close>\<close>

definition post_profiles :: "crypto \<Rightarrow> request \<Rightarrow> world \<Rightarrow> response option \<times> world" where
  "post_profiles bcrypt req w =
     (let name = field (body req) ''name'';
          password = field (body req) ''password'';
          avatar_url = field (body req) ''avatar_url''
      in if \<not> truthy name \<or> \<not> truthy password
         then (json 400 (error_body ''Name and password required''), w)
         else
     (case bcrypt_hash bcrypt password of
        Inl msg \<Rightarrow> (json 500 (error_body msg), w)
      | Inr password_hash \<Rightarrow>
     (case db_insert Profiles
             [(''name'', name), (''password_hash'', Str password_hash),
              (''avatar_url'', avatar_url)] w of
        (Inl err, w') \<Rightarrow>
          (if code err = ''23505''
           then json 409 (error_body ''Profile name already exists'')
           else json 500 (error_body (message err)), w')
      | (Inr data, w') \<Rightarrow> (json 201 (Obj (project public_columns data)), w'))))"

text \<open>\<open>GET /api/profiles\<close>\<close>

definition get_profiles :: "request \<Rightarrow> world \<Rightarrow> response option \<times> world" where
  "get_profiles req w =
     (case db_select Profiles (\<lambda>r. True) w of
        (Inl error, w') \<Rightarrow> (json 500 (error_body (message error)), w')
      | (Inr rs, w') \<Rightarrow>
          (json 200 (Arr (map (\<lambda>r. Obj (project public_columns r))
                              (order ''created_at'' False rs))), w'))"

text \<open>\<open>POST /api/profiles/login\<close>\<close>

definition post_profiles_login :: "crypto \<Rightarrow> request \<Rightarrow> world \<Rightarrow> response option \<times> world" where
  "post_profiles_login bcrypt req w =
     (let profile_id = field (body req) ''profile_id'';
          password = field (body req) ''password''
      in if \<not> truthy profile_id \<or> \<not> truthy password
         then (json 400 (error_body ''Profile ID and password required''), w)
         else
     (case db_select_single Profiles (eq ''id'' profile_id) w of
        (Inl error, w') \<Rightarrow> (json 404 (error_body ''Profile not found''), w')
      | (Inr profile, w') \<Rightarrow>
     (case bcrypt_compare bcrypt password (field profile ''password_hash'') of
        None \<Rightarrow> (None, w')
      | Some isMatch \<Rightarrow>
          if \<not> isMatch then (json 401 (error_body ''Invalid password''), w')
          else (json 200 (Obj (without ''password_hash'' profile)), w'))))"

text \<open>\<open>PUT /api/profiles/:id\<close>\<close>

definition put_profiles_id :: "crypto \<Rightarrow> request \<Rightarrow> world \<Rightarrow> response option \<times> world" where
  "put_profiles_id bcrypt req w =
     (let name = field (body req) ''name'';
          password = field (body req) ''password'';
          avatar_url = field (body req) ''avatar_url'';
          updates = [];
          updates = (if truthy name then assign ''name'' name updates else updates);
          updates = (if avatar_url \<noteq> Undefined
                     then assign ''avatar_url'' avatar_url updates else updates)
      in
     (case (if truthy password
            then (case bcrypt_hash bcrypt password of
                    Inl msg \<Rightarrow> None
                  | Inr h \<Rightarrow> Some (assign ''password_hash'' (Str h) updates))
            else Some updates) of
        None \<Rightarrow> (None, w)
      | Some updates \<Rightarrow>
     (case db_update_single Profiles updates (eq ''id'' (Str (params_id req))) w of
        (Inl error, w') \<Rightarrow> (json 500 (error_body (message error)), w')
      | (Inr data, w') \<Rightarrow> (json 200 (Obj (project public_columns data)), w'))))"

text \<open>\<open>DELETE /api/profiles/:id\<close>\<close>

definition delete_profiles_id :: "request \<Rightarrow> world \<Rightarrow> response option \<times> world" where
  "delete_profiles_id req w =
     (case db_delete Profiles (eq ''id'' (Str (params_id req))) w of
        (Some error, w') \<Rightarrow> (json 500 (error_body (message error)), w')
      | (None, w') \<Rightarrow> (send 204, w'))"

text \<open>\<open>POST /api/checklists\<close>\<close>

definition post_checklists :: "request \<Rightarrow> world \<Rightarrow> response option \<times> world" where
  "post_checklists req w =
     (let profile_id = field (body req) ''profile_id'';
          title = field (body req) ''title''
      in if \<not> truthy profile_id \<or> \<not> truthy title
         then (json 400 (error_body ''Profile ID and title required''), w)
         else
     (case db_insert Checklists [(''profile_id'', profile_id), (''title'', title)] w of
        (Inl error, w') \<Rightarrow> (json 500 (error_body (message error)), w')
      | (Inr data, w') \<Rightarrow> (json 201 (Obj data), w')))"

text \<open>\<open>GET /api/checklists\<close>\<close>

definition get_checklists :: "request \<Rightarrow> world \<Rightarrow> response option \<times> world" where
  "get_checklists req w =
     (let profile_id = field (query req) ''profile_id''
      in if \<not> truthy profile_id
         then (json 400 (error_body ''Profile ID required''), w)
         else
     (case db_select Checklists (eq ''profile_id'' profile_id) w of
        (Inl error, w') \<Rightarrow> (json 500 (error_body (message error)), w')
      | (Inr rs, w') \<Rightarrow> (json 200 (Arr (map Obj (order ''created_at'' False rs))), w')))"

text \<open>\<open>GET /api/checklists/:id\<close>\<close>

definition get_checklists_id :: "request \<Rightarrow> world \<Rightarrow> response option \<times> world" where
  "get_checklists_id req w =
     (case db_select_single Checklists (eq ''id'' (Str (params_id req))) w of
        (Inl error, w') \<Rightarrow> (json 404 (error_body ''Checklist not found''), w')
      | (Inr data, w') \<Rightarrow> (json 200 (Obj data), w'))"

text \<open>\<open>PUT /api/checklists/:id\<close>\<close>

definition put_checklists_id :: "request \<Rightarrow> world \<Rightarrow> response option \<times> world" where
  "put_checklists_id req w =
     (let title = field (body req) ''title'' in
      case db_update_single Checklists [(''title'', title)]
             (eq ''id'' (Str (params_id req))) w of
        (Inl error, w') \<Rightarrow> (json 500 (error_body (message error)), w')
      | (Inr data, w') \<Rightarrow> (json 200 (Obj data), w'))"

text \<open>\<open>DELETE /api/checklists/:id\<close>\<close>

definition delete_checklists_id :: "crypto \<Rightarrow> request \<Rightarrow> world \<Rightarrow> response option \<times> world" where
  "delete_checklists_id bcrypt req w =
     (let profile_id = field (body req) ''profile_id'';
          password = field (body req) ''password''
      in if \<not> truthy profile_id \<or> \<not> truthy password
         then (json 400 (error_body ''Profile ID and password required for deletion''), w)
         else
     (case db_select_single Profiles (eq ''id'' profile_id) w of
        (Inl profileError, w1) \<Rightarrow> (json 404 (error_body ''Profile not found''), w1)
      | (Inr row, w1) \<Rightarrow>
     (let profile = project [''password_hash''] row in
      case bcrypt_compare bcrypt password (field profile ''password_hash'') of
        None \<Rightarrow> (None, w1)
      | Some isMatch \<Rightarrow>
          if \<not> isMatch then (json 401 (error_body ''Invalid password''), w1)
          else
     (case db_delete Checklists (eq ''id'' (Str (params_id req))) w1 of
        (Some error, w2) \<Rightarrow> (json 500 (error_body (message error)), w2)
      | (None, w2) \<Rightarrow> (send 204, w2)))))"

text \<open>\<open>POST /api/checklists/:id/share\<close>\<close>

definition post_checklists_id_share :: "request \<Rightarrow> world \<Rightarrow> response option \<times> world" where
  "post_checklists_id_share req w =
     (let sender_id = field (body req) ''sender_id'';
          receiver_name = field (body req) ''receiver_name'';
          checklist_id = Str (params_id req)
      in if \<not> truthy sender_id \<or> \<not> truthy receiver_name
         then (json 400 (error_body ''Sender ID and receiver name required''), w)
         else
     (case db_select_single Profiles (eq ''name'' receiver_name) w of
        (Inl receiverError, w1) \<Rightarrow> (json 404 (error_body ''Receiver profile not found''), w1)
      | (Inr row, w1) \<Rightarrow>
     (let receiver = project [''id''] row in
      case db_insert ShareRequests
             [(''checklist_id'', checklist_id), (''sender_id'', sender_id),
              (''receiver_id'', field receiver ''id'')] w1 of
        (Inl error, w2) \<Rightarrow> (json 500 (error_body (message error)), w2)
      | (Inr data, w2) \<Rightarrow> (json 201 (Obj data), w2))))"

text \<open>
  \<open>GET /api/profiles/:id/share-requests\<close>. The select embeds, through the foreign keys
  \<open>checklist_id\<close> and \<open>sender_id\<close>, the title of the checklist and the name and avatar of
  the sender: an object, or \<open>null\<close> when the referenced row is missing.
\<close>

definition embed_row :: "world \<Rightarrow> table \<Rightarrow> string list \<Rightarrow> jsval \<Rightarrow> jsval" where
  "embed_row w t cols v =
     (case filter (eq ''id'' v) (rows w t) of
        [] \<Rightarrow> Null
      | r # _ \<Rightarrow> Obj (project cols r))"

definition get_profiles_id_share_requests :: "request \<Rightarrow> world \<Rightarrow> response option \<times> world" where
  "get_profiles_id_share_requests req w =
     (case db_select ShareRequests
             (\<lambda>r. eq ''receiver_id'' (Str (params_id req)) r \<and> eq ''status'' (Str ''pending'') r) w of
        (Inl error, w') \<Rightarrow> (json 500 (error_body (message error)), w')
      | (Inr rs, w') \<Rightarrow>
          (json 200
             (Arr (map (\<lambda>r. Obj (project [''id'', ''status'', ''created_at'', ''checklist_id''] r @
                                 [(''checklists'',
                                     embed_row w' Checklists [''title''] (field r ''checklist_id'')),
                                  (''profiles'',
                                     embed_row w' Profiles [''name'', ''avatar_url'']
                                       (field r ''sender_id''))]))
                       (order ''created_at'' False rs))), w'))"

text \<open>\<open>POST /api/checklists/:id/timer-logs\<close>\<close>

definition post_checklists_id_timer_logs :: "request \<Rightarrow> world \<Rightarrow> response option \<times> world" where
  "post_checklists_id_timer_logs req w =
     (let elapsed_seconds = field (body req) ''elapsed_seconds''
      in if elapsed_seconds = Undefined
         then (json 400 (error_body ''Elapsed seconds required''), w)
         else
     (case db_insert TimerLogs
             [(''checklist_id'', Str (params_id req)), (''elapsed_seconds'', elapsed_seconds)] w of
        (Inl error, w') \<Rightarrow> (json 500 (error_body (message error)), w')
      | (Inr data, w') \<Rightarrow> (json 201 (Obj data), w')))"

text \<open>\<open>GET /api/checklists/:id/timer-logs\<close>\<close>

definition get_checklists_id_timer_logs :: "request \<Rightarrow> world \<Rightarrow> response option \<times> world" where
  "get_checklists_id_timer_logs req w =
     (case db_select TimerLogs (eq ''checklist_id'' (Str (params_id req))) w of
        (Inl error, w') \<Rightarrow> (json 500 (error_body (message error)), w')
      | (Inr rs, w') \<Rightarrow> (json 200 (Arr (map Obj (order ''created_at'' False rs))), w'))"

text \<open>\<open>POST /api/tasks\<close>\<close>

definition post_tasks :: "request \<Rightarrow> world \<Rightarrow> response option \<times> world" where
  "post_tasks req w =
     (let checklist_id = field (body req) ''checklist_id'';
          parent_id = field (body req) ''parent_id'';
          title = field (body req) ''title'';
          description = field (body req) ''description'';
          order_num = field (body req) ''order_num'';
          start_time = field (body req) ''start_time'';
          end_time = field (body req) ''end_time'';
          allocated_time = field (body req) ''allocated_time''
      in
      case db_insert Tasks
             [(''checklist_id'', checklist_id),
              (''parent_id'', if truthy parent_id then parent_id else Null),
              (''title'', title), (''description'', description),
              (''order_num'', order_num), (''start_time'', start_time),
              (''end_time'', end_time), (''allocated_time'', allocated_time)] w of
        (Inl error, w') \<Rightarrow> (json 500 (error_body (message error)), w')
      | (Inr data, w') \<Rightarrow> (json 201 (Obj data), w'))"

text \<open>\<open>GET /api/checklists/:id/tasks\<close>\<close>

definition get_checklists_id_tasks :: "request \<Rightarrow> world \<Rightarrow> response option \<times> world" where
  "get_checklists_id_tasks req w =
     (case db_select Tasks (eq ''checklist_id'' (Str (params_id req))) w of
        (Inl error, w') \<Rightarrow> (json 500 (error_body (message error)), w')
      | (Inr rs, w') \<Rightarrow> (json 200 (Arr (map Obj (order ''order_num'' True rs))), w'))"

text \<open>
  \<open>PUT /api/tasks/:id\<close>. \<open>updates\<close> is filled by one statement
  \<open>if (k !== undefined) updates.k = k\<close> for each of seven names, in this order.
\<close>

definition updatable :: "string list" where
  "updatable = [''title'', ''description'', ''is_completed'', ''order_num'',
                ''start_time'', ''end_time'', ''allocated_time'']"

definition set_if_defined :: "obj \<Rightarrow> obj \<Rightarrow> string \<Rightarrow> obj" where
  "set_if_defined b updates k =
     (if field b k \<noteq> Undefined then assign k (field b k) updates else updates)"

definition task_updates :: "obj \<Rightarrow> obj" where
  "task_updates b = foldl (set_if_defined b) [] updatable"

definition put_tasks_id :: "request \<Rightarrow> world \<Rightarrow> response option \<times> world" where
  "put_tasks_id req w =
     (let updates = task_updates (body req) in
      case db_update_single Tasks updates (eq ''id'' (Str (params_id req))) w of
        (Inl error, w') \<Rightarrow> (json 500 (error_body (message error)), w')
      | (Inr data, w') \<Rightarrow> (json 200 (Obj data), w'))"

text \<open>\<open>DELETE /api/tasks/:id\<close>\<close>

definition delete_tasks_id :: "request \<Rightarrow> world \<Rightarrow> response option \<times> world" where
  "delete_tasks_id req w =
     (case db_delete Tasks (eq ''id'' (Str (params_id req))) w of
        (Some error, w') \<Rightarrow> (json 500 (error_body (message error)), w')
      | (None, w') \<Rightarrow> (send 204, w'))"

section \<open>The API as a whole\<close>

datatype endpoint =
    PostProfiles | GetProfiles | PostProfilesLogin | PutProfilesId | DeleteProfilesId
  | PostChecklists | GetChecklists | GetChecklistsId | PutChecklistsId | DeleteChecklistsId
  | PostChecklistsIdShare | GetProfilesIdShareRequests | PostShareRequestsIdRespond
  | PostChecklistsIdTimerLogs | GetChecklistsIdTimerLogs
  | PostTasks | GetChecklistsIdTasks | PutTasksId | DeleteTasksId

fun handle :: "crypto \<Rightarrow> endpoint \<Rightarrow> request \<Rightarrow> world \<Rightarrow> response option \<times> world" where
  "handle bcrypt PostProfiles = post_profiles bcrypt"
| "handle bcrypt GetProfiles = get_profiles"
| "handle bcrypt PostProfilesLogin = post_profiles_login bcrypt"
| "handle bcrypt PutProfilesId = put_profiles_id bcrypt"
| "handle bcrypt DeleteProfilesId = delete_profiles_id"
| "handle bcrypt PostChecklists = post_checklists"
| "handle bcrypt GetChecklists = get_checklists"
| "handle bcrypt GetChecklistsId = get_checklists_id"
| "handle bcrypt PutChecklistsId = put_checklists_id"
| "handle bcrypt DeleteChecklistsId = delete_checklists_id bcrypt"
| "handle bcrypt PostChecklistsIdShare = post_checklists_id_share"
| "handle bcrypt GetProfilesIdShareRequests = get_profiles_id_share_requests"
| "handle bcrypt PostShareRequestsIdRespond = respond"
| "handle bcrypt PostChecklistsIdTimerLogs = post_checklists_id_timer_logs"
| "handle bcrypt GetChecklistsIdTimerLogs = get_checklists_id_timer_logs"
| "handle bcrypt PostTasks = post_tasks"
| "handle bcrypt GetChecklistsIdTasks = get_checklists_id_tasks"
| "handle bcrypt PutTasksId = put_tasks_id"
| "handle bcrypt DeleteTasksId = delete_tasks_id"

section \<open>Names used in the statements\<close>

text \<open>The world after a call that was answered: an insert, and an update without \<open>select\<close>.\<close>

definition inserted :: "table \<Rightarrow> obj \<Rightarrow> world \<Rightarrow> world" where
  "inserted t ob w =
     (advance w)\<lparr>rows := (rows w)(t := rows w t @ [stored t ob w]),
                 fresh := Suc (fresh w), clock := clock w + 1\<rparr>"

definition updated :: "table \<Rightarrow> obj \<Rightarrow> (obj \<Rightarrow> bool) \<Rightarrow> world \<Rightarrow> world" where
  "updated t ob p w =
     (advance w)\<lparr>rows := (rows w)(t := map (\<lambda>r. if p r then overlay (sent ob) r else r)
                                          (rows w t))\<rparr>"

text \<open>
  The object the accept branch inserts into \<open>checklists\<close>, the tasks it fetches, and the
  columns \<open>newTaskData\<close> takes over from the source task.
\<close>

definition new_checklist :: "obj \<Rightarrow> obj \<Rightarrow> obj" where
  "new_checklist rq src =
     [(''profile_id'', field rq ''receiver_id''), (''title'', field src ''title''),
      (''is_shared_copy'', Bool True)]"

definition source_tasks :: "obj \<Rightarrow> world \<Rightarrow> obj list" where
  "source_tasks rq w =
     order ''created_at'' True
       (filter (eq ''checklist_id'' (field rq ''checklist_id'')) (rows w Tasks))"

definition copied :: "string list" where
  "copied = [''title'', ''description'', ''order_num'', ''start_time'', ''end_time'',
             ''allocated_time'', ''is_completed'']"

section \<open>A concrete world\<close>

text \<open>
  The scenario of the specification: profile A owns the checklist Trip with the task Pack
  and its sub-task Shoes, and has asked to share it with profile B. The password hashes
  are those of \<open>toy_bcrypt\<close> below. \<open>outage\<close> is the same
  world with a service that fails the third call, \<open>late_outage\<close> one that fails the
  fifth, \<open>flaky\<close> one that fails the sixth.
\<close>

definition request_S :: obj where
  "request_S = [(''id'', Str ''S''), (''checklist_id'', Str ''C''), (''sender_id'', Str ''A''),
                (''receiver_id'', Str ''B''), (''status'', Str ''pending''),
                (''created_at'', Num 6)]"

definition checklist_C :: obj where
  "checklist_C = [(''id'', Str ''C''), (''profile_id'', Str ''A''), (''title'', Str ''Trip''),
                  (''is_shared_copy'', Bool False), (''created_at'', Num 3)]"

definition task_Pack :: obj where
  "task_Pack = [(''id'', Str ''T1''), (''checklist_id'', Str ''C''), (''parent_id'', Null),
                (''title'', Str ''Pack''), (''description'', Null), (''order_num'', Num 1),
                (''start_time'', Null), (''end_time'', Null), (''allocated_time'', Null),
                (''is_completed'', Bool False), (''created_at'', Num 4)]"

definition task_Shoes :: obj where
  "task_Shoes = [(''id'', Str ''T2''), (''checklist_id'', Str ''C''), (''parent_id'', Str ''T1''),
                 (''title'', Str ''Shoes''), (''description'', Null), (''order_num'', Num 2),
                 (''start_time'', Null), (''end_time'', Null), (''allocated_time'', Null),
                 (''is_completed'', Bool True), (''created_at'', Num 5)]"

definition profile_A :: obj where
  "profile_A = [(''id'', Str ''A''), (''name'', Str ''ann''),
                (''password_hash'', Str ''$2a$secret''), (''avatar_url'', Null),
                (''created_at'', Num 1)]"

definition profile_B :: obj where
  "profile_B = [(''id'', Str ''B''), (''name'', Str ''bob''),
                (''password_hash'', Str ''$2a$hunter2''), (''avatar_url'', Null),
                (''created_at'', Num 2)]"

definition trip :: world where
  "trip =
     \<lparr>rows = (\<lambda>t. case t of
          Profiles \<Rightarrow> [profile_A, profile_B]
        | Checklists \<Rightarrow> [checklist_C]
        | Tasks \<Rightarrow> [task_Pack, task_Shoes]
        | ShareRequests \<Rightarrow> [request_S]
        | TimerLogs \<Rightarrow> []),
      defaults = (\<lambda>t. case t of
          Checklists \<Rightarrow> [(''is_shared_copy'', Bool False)]
        | Tasks \<Rightarrow> [(''is_completed'', Bool False)]
        | ShareRequests \<Rightarrow> [(''status'', Str ''pending'')]
        | _ \<Rightarrow> []),
      uuid = (\<lambda>n. replicate (Suc n) CHR ''n''),
      fresh = 0, clock = 7, faults = [], calls = 0\<rparr>"

definition outage :: world where
  "outage = trip\<lparr>faults := [None, None, Some (DbError ''08006'' ''connection failure'')]\<rparr>"

definition late_outage :: world where
  "late_outage = trip\<lparr>faults := [None, None, None, None,
                                    Some (DbError ''08006'' ''connection failure'')]\<rparr>"

definition flaky :: world where
  "flaky = trip\<lparr>faults := [None, None, None, None, None,
                              Some (DbError ''23502'' ''null value in column'')]\<rparr>"

definition accept_S :: request where
  "accept_S = \<lparr>params_id = ''S'', body = [(''action'', Str ''accept'')], query = []\<rparr>"

text \<open>
  Two callers accept the request S at the same time: both handlers read the request
  before either writes. The worlds after each of the four steps.
\<close>

definition one_checked :: world where
  "one_checked = snd (respond_check accept_S trip)"

definition both_checked :: world where
  "both_checked = snd (respond_check accept_S one_checked)"

definition one_written :: world where
  "one_written = snd (respond_write accept_S request_S both_checked)"

definition both_written :: world where
  "both_written = snd (respond_write accept_S request_S one_written)"

text \<open>The same world with a checklist that has no tasks.\<close>

definition bare :: world where
  "bare = trip\<lparr>rows := (rows trip)(Tasks := [])\<rparr>"

text \<open>A response to a share request that does not exist.\<close>

definition accept_X :: request where
  "accept_X = \<lparr>params_id = ''X'', body = [(''action'', Str ''accept'')], query = []\<rparr>"

text \<open>The world of the scenario with a service that fails the next call only.\<close>

definition broken :: world where
  "broken = trip\<lparr>faults := [Some (DbError ''23502'' ''null value in column'')]\<rparr>"

text \<open>An update of the task Shoes that names a new title and a new parent.\<close>

definition retitle_T2 :: request where
  "retitle_T2 = \<lparr>params_id = ''T2'',
                  body = [(''title'', Str ''Boots''), (''parent_id'', Str ''T9'')],
                  query = []\<rparr>"

section \<open>Required fields\<close>

text \<open>
  The fields a handler of server.js checks for before it does anything else, read off
  its first \<open>if (...) return res.status(400)\<close>: a handler without such a line has none.
  \<open>GET /api/checklists\<close> reads its field from the query string, the others from the body.
\<close>

definition required :: "endpoint \<Rightarrow> string list" where
  "required ep =
     (case ep of
        PostProfiles \<Rightarrow> [''name'', ''password'']
      | PostProfilesLogin \<Rightarrow> [''profile_id'', ''password'']
      | PostChecklists \<Rightarrow> [''profile_id'', ''title'']
      | GetChecklists \<Rightarrow> [''profile_id'']
      | DeleteChecklistsId \<Rightarrow> [''profile_id'', ''password'']
      | PostChecklistsIdShare \<Rightarrow> [''sender_id'', ''receiver_name'']
      | PostShareRequestsIdRespond \<Rightarrow> [''action'']
      | PostChecklistsIdTimerLogs \<Rightarrow> [''elapsed_seconds'']
      | _ \<Rightarrow> [])"

definition input :: "endpoint \<Rightarrow> request \<Rightarrow> obj" where
  "input ep req = (if ep = GetChecklists then query req else body req)"

text \<open>
  A stand-in for bcrypt, for the concrete runs: a hash is the password behind a prefix,
  and anything but a string is refused as bcryptjs refuses it.
\<close>

definition toy_bcrypt :: crypto where
  "toy_bcrypt =
     \<lparr>bcrypt_hash = (\<lambda>v. case v of Str s \<Rightarrow> Inr (''$2a$'' @ s)
                                   | _ \<Rightarrow> Inl ''Illegal arguments''),
      bcrypt_compare = (\<lambda>p h. case (p, h) of
                                 (Str s, Str t) \<Rightarrow> Some (t = ''$2a$'' @ s)
                               | _ \<Rightarrow> None)\<rparr>"

text \<open>A request with nothing in it, and a profile creation without a password.\<close>

definition empty_request :: request where
  "empty_request = \<lparr>params_id = [], body = [], query = []\<rparr>"

definition nameless :: request where
  "nameless = \<lparr>params_id = [], body = [(''name'', Str ''carl'')], query = []\<rparr>"

section \<open>Where the password hash lives\<close>

text \<open>
  \<open>password_hash\<close> is a column of the table \<open>profiles\<close> and of no other table, and no
  value held in a column is itself an object with a property of that name; the same for
  the column defaults. A request is \<open>plain\<close> when no value in its body or query is such an
  object either.
\<close>

definition confined :: "world \<Rightarrow> bool" where
  "confined w =
     ((\<forall>r \<in> set (rows w Profiles). \<not> mentions_fields ''password_hash'' (without ''password_hash'' r)) \<and>
      (\<forall>t \<in> {Checklists, Tasks, ShareRequests, TimerLogs}.
         \<forall>r \<in> set (rows w t). \<not> mentions_fields ''password_hash'' r) \<and>
      \<not> mentions_fields ''password_hash'' (without ''password_hash'' (defaults w Profiles)) \<and>
      (\<forall>t \<in> {Checklists, Tasks, ShareRequests, TimerLogs}.
         \<not> mentions_fields ''password_hash'' (defaults w t)))"

definition plain :: "request \<Rightarrow> bool" where
  "plain req =
     ((\<forall>v \<in> snd ` set (body req). \<not> mentions ''password_hash'' v) \<and>
      (\<forall>v \<in> snd ` set (query req). \<not> mentions ''password_hash'' v))"

text \<open>
  Logins of profile A: with a wrong password, with the empty string, with a number, and
  with the right password.
\<close>

definition login_wrong :: request where
  "login_wrong = \<lparr>params_id = [],
                   body = [(''profile_id'', Str ''A''), (''password'', Str ''guess'')],
                   query = []\<rparr>"

definition login_empty :: request where
  "login_empty = \<lparr>params_id = [],
                   body = [(''profile_id'', Str ''A''), (''password'', Str [])],
                   query = []\<rparr>"

definition login_number :: request where
  "login_number = \<lparr>params_id = [],
                    body = [(''profile_id'', Str ''A''), (''password'', Num 12345)],
                    query = []\<rparr>"

definition login_right :: request where
  "login_right = \<lparr>params_id = [],
                   body = [(''profile_id'', Str ''A''), (''password'', Str ''secret'')],
                   query = []\<rparr>"

text \<open>
  Shorthands of the proofs about the hash: a value without the property at any depth,
  a row without it, a row that may have it as a column but not inside a value, and a
  response whose body is without it.
\<close>

definition clean :: "jsval \<Rightarrow> bool" where
  "clean v = (\<not> mentions ''password_hash'' v)"

definition pub :: "obj \<Rightarrow> bool" where
  "pub r = (\<forall>(k, v) \<in> set r. k \<noteq> ''password_hash'' \<and> clean v)"

definition priv :: "obj \<Rightarrow> bool" where
  "priv r = (\<forall>(k, v) \<in> set r. k \<noteq> ''password_hash'' \<longrightarrow> clean v)"

definition safe :: "response option \<Rightarrow> bool" where
  "safe res = (case res of None \<Rightarrow> True | Some r \<Rightarrow> clean (payload r))"

section \<open>The database layer\<close>

lemma field_assign [simp]: "field (assign k v ob) k' = (if k' = k then v else field ob k')"
  by (induction ob) (auto simp: field_def)

lemma advance_sel [simp]:
  "rows (advance w) = rows w" "defaults (advance w) = defaults w" "uuid (advance w) = uuid w"
  "fresh (advance w) = fresh w" "clock (advance w) = clock w" "calls (advance w) = Suc (calls w)"
  "faults (advance w) = tl (faults w)"
  by (simp_all add: advance_def)

lemma fault_at_advance [simp]: "fault_at (advance w) i = fault_at w (Suc i)"
  by (cases "faults w") (auto simp: fault_at_def advance_def)

lemma healthy_advance [simp]: "healthy w \<Longrightarrow> healthy (advance w)"
  by (cases "faults w") (auto simp: healthy_def advance_def)

lemma healthy_fault_at [simp]: "healthy w \<Longrightarrow> fault_at w i = None"
  by (auto simp: healthy_def fault_at_def)

lemma db_select_eq:
  "db_select t p w = (case fault_at w 0 of Some e \<Rightarrow> Inl e | None \<Rightarrow> Inr (filter p (rows w t)), advance w)"
  by (simp add: db_select_def db_call_def split: option.splits)

lemma db_select_single_eq:
  "db_select_single t p w = (case fault_at w 0 of Some e \<Rightarrow> Inl e | None \<Rightarrow> single (filter p (rows w t)), advance w)"
  by (simp add: db_select_single_def db_select_eq split: option.splits)

lemma stored_advance [simp]: "stored t ob (advance w) = stored t ob w"
  by (simp add: stored_def)

lemma db_insert_eq:
  "db_insert t ob w = (case fault_at w 0 of Some e \<Rightarrow> (Inl e, advance w) | None \<Rightarrow> (Inr (stored t ob w), inserted t ob w))"
  by (simp add: db_insert_def db_call_def inserted_def Let_def split: option.splits)

lemma inserted_sel [simp]:
  "rows (inserted t ob w) = (rows w)(t := rows w t @ [stored t ob w])"
  "defaults (inserted t ob w) = defaults w" "uuid (inserted t ob w) = uuid w"
  "fresh (inserted t ob w) = Suc (fresh w)" "clock (inserted t ob w) = clock w + 1"
  "calls (inserted t ob w) = Suc (calls w)"
  "faults (inserted t ob w) = tl (faults w)"
  by (simp_all add: inserted_def)

lemma fault_at_inserted [simp]: "fault_at (inserted t ob w) i = fault_at w (Suc i)"
  by (cases "faults w") (auto simp: fault_at_def)

lemma healthy_inserted [simp]: "healthy w \<Longrightarrow> healthy (inserted t ob w)"
  by (cases "faults w") (auto simp: healthy_def)

lemma db_update_eq:
  "db_update t ob p w = (case fault_at w 0 of Some e \<Rightarrow> (Some e, advance w) | None \<Rightarrow> (None, updated t ob p w))"
  by (simp add: db_update_def db_call_def updated_def split: option.splits)

lemma updated_sel [simp]:
  "rows (updated t ob p w) = (rows w)(t := map (\<lambda>r. if p r then overlay (sent ob) r else r) (rows w t))"
  "defaults (updated t ob p w) = defaults w" "uuid (updated t ob p w) = uuid w"
  "fresh (updated t ob p w) = fresh w" "clock (updated t ob p w) = clock w"
  "calls (updated t ob p w) = Suc (calls w)"
  "faults (updated t ob p w) = tl (faults w)"
  by (simp_all add: updated_def)

lemma stored_updated [simp]: "stored t ob (updated t' ob' p w) = stored t ob w"
  by (simp add: stored_def)

lemma fault_at_updated [simp]: "fault_at (updated t ob p w) i = fault_at w (Suc i)"
  by (cases "faults w") (auto simp: fault_at_def)

lemma healthy_updated [simp]: "healthy w \<Longrightarrow> healthy (updated t ob p w)"
  by (cases "faults w") (auto simp: healthy_def)

lemma clone_tasks_rows_other:
  "t \<noteq> Tasks \<Longrightarrow> rows (snd (clone_tasks nc ts m w)) t = rows w t"
  by (induction ts arbitrary: m w) (auto simp: db_insert_eq clone_tasks.simps split: option.splits)

lemma accept_rows_other:
  "t \<noteq> Tasks \<Longrightarrow> t \<noteq> Checklists \<Longrightarrow> rows (snd (accept rq w)) t = rows w t"
  by (auto simp: accept_def db_select_single_eq db_insert_eq db_select_eq clone_tasks_rows_other Let_def split_beta
      split: option.splits sum.splits)


lemma filter_map_if:
  "(\<And>r. p r \<Longrightarrow> p (g r)) \<Longrightarrow> filter p (map (\<lambda>r. if p r then g r else r) xs) = map g (filter p xs)"
  by (induction xs) auto

lemma sent_status [simp]: "sent [(''status'', Str s)] = [(''status'', Str s)]"
  by (simp add: sent_def)

lemma nullish_simps [simp]:
  "nullish Undefined = Null" "nullish Null = Null" "nullish (Str s) = Str s"
  "nullish (Bool b) = Bool b" "nullish (Num n) = Num n"
  by (simp_all add: nullish_def)

lemma eq_id_status [simp]: "eq ''id'' v (assign ''status'' x r) = eq ''id'' v r"
  by (simp add: eq_def)

subsection \<open>Facts about the scenario\<close>

lemma accept_S_simps [simp]:
  "params_id accept_S = ''S''" "field (body accept_S) ''action'' = Str ''accept''"
  by (simp_all add: accept_S_def field_def)

lemma trip_request:
  "rows w ShareRequests = rows trip ShareRequests \<Longrightarrow>
   filter (eq ''id'' (Str (params_id accept_S))) (rows w ShareRequests) = [request_S]"
  by (simp add: trip_def request_S_def eq_def field_def)

lemma trip_source:
  "rows w Checklists = rows trip Checklists \<Longrightarrow>
   filter (eq ''id'' (field request_S ''checklist_id'')) (rows w Checklists) = [checklist_C]"
  by (simp add: trip_def request_S_def checklist_C_def eq_def field_def)

lemma trip_facts:
  "field request_S ''status'' = Str ''pending''"
  "field request_S ''checklist_id'' = Str ''C''"
  "field request_S ''receiver_id'' = Str ''B''"
  "field checklist_C ''title'' = Str ''Trip''"
  "rows trip Tasks = [task_Pack, task_Shoes]"
  "rows trip Checklists = [checklist_C]"
  "rows trip ShareRequests = [request_S]"
  "healthy trip"
  by (simp_all add: trip_def request_S_def checklist_C_def field_def healthy_def)

subsection \<open>The status update\<close>

lemma respond_pending:
  assumes "field (body req) ''action'' = Str ''accept''"
    and "filter (eq ''id'' (Str (params_id req))) (rows w ShareRequests) = [rq]"
    and "field rq ''status'' = Str ''pending''"
    and "fault_at w 0 = None" and "fault_at w (Suc 0) = None"
  shows "respond req w =
           accept rq (updated ShareRequests [(''status'', Str ''accepted'')]
                        (eq ''id'' (Str (params_id req))) (advance w))"
  using assms
  by (simp add: respond_def db_select_single_eq db_update_eq single_def)

text \<open>
  C10. When a pending request is accepted, its status is written before any of the
  clone work: the accept branch starts in a world where the request is already
  \<open>accepted\<close>, and nothing in it touches the request again. So when the fetch of the
  source checklist or the fetch of its tasks then fails, the caller gets a 500 and the
  request is \<open>accepted\<close> all the same.
\<close>

theorem status_accepted_before_clone:
  assumes "field (body req) ''action'' = Str ''accept''"
    and "filter (eq ''id'' (Str (params_id req))) (rows w ShareRequests) = [rq]"
    and "field rq ''status'' = Str ''pending''"
    and "fault_at w 0 = None" and "fault_at w 1 = None"
  shows "(\<exists>w2. respond req w = accept rq w2 \<and>
               filter (eq ''id'' (Str (params_id req))) (rows w2 ShareRequests)
                 = [assign ''status'' (Str ''accepted'') rq]) \<and>
         filter (eq ''id'' (Str (params_id req))) (rows (snd (respond req w)) ShareRequests)
           = [assign ''status'' (Str ''accepted'') rq] \<and>
         (fault_at w 2 \<noteq> None \<or>
          (\<forall>c. filter (eq ''id'' (field rq ''checklist_id'')) (rows w Checklists) \<noteq> [c]) \<or>
          (fault_at w 2 = None \<and> fault_at w 3 = None \<and> fault_at w 4 \<noteq> None)
          \<longrightarrow> map_option status (fst (respond req w)) = Some 500)"
proof -
  let ?w2 = "updated ShareRequests [(''status'', Str ''accepted'')]
               (eq ''id'' (Str (params_id req))) (advance w)"
  have run: "respond req w = accept rq ?w2"
    using assms by (simp add: respond_pending)
  have st: "filter (eq ''id'' (Str (params_id req))) (rows ?w2 ShareRequests)
              = [assign ''status'' (Str ''accepted'') rq]"
    using assms(2) by (simp add: filter_map_if)
  have fin: "rows (snd (respond req w)) ShareRequests = rows ?w2 ShareRequests"
    unfolding run by (rule accept_rows_other) simp_all
  have err: "map_option status (fst (accept rq ?w2)) = Some 500"
    if "fault_at w 2 \<noteq> None \<or>
          (\<forall>c. filter (eq ''id'' (field rq ''checklist_id'')) (rows w Checklists) \<noteq> [c]) \<or>
          (fault_at w 2 = None \<and> fault_at w 3 = None \<and> fault_at w 4 \<noteq> None)"
    using that
    by (auto simp: accept_def db_select_single_eq db_insert_eq db_select_eq single_def
          json_def eval_nat_numeral
          split: option.splits sum.splits list.splits)
  show ?thesis
    using run st fin err by auto
qed

theorem status_accepted_before_clone_witness:
  "map_option status (fst (respond accept_S outage)) = Some 500 \<and>
   filter (eq ''id'' (Str ''S'')) (rows (snd (respond accept_S outage)) ShareRequests)
     = [assign ''status'' (Str ''accepted'') request_S]"
proof -
  have r: "rows outage = rows trip"
    by (simp add: outage_def)
  have f: "fault_at outage 0 = None" "fault_at outage 1 = None" "fault_at outage 2 \<noteq> None"
    by (simp_all add: outage_def fault_at_def)
  have q: "filter (eq ''id'' (Str (params_id accept_S))) (rows outage ShareRequests) = [request_S]"
    by (rule trip_request) (simp add: r)
  from status_accepted_before_clone [OF accept_S_simps(2) q trip_facts(1) f(1,2)] f(3)
  show ?thesis by simp
qed


subsection \<open>The clone loop\<close>

lemma clone_tasks_Cons:
  "clone_tasks nc (t # ts) m w =
     (case fault_at w 0 of
        Some e \<Rightarrow> clone_tasks nc ts m (advance w)
      | None \<Rightarrow> clone_tasks nc ts
                 (m(field t ''id'' \<mapsto> field (stored Tasks (newTaskData nc m t) w) ''id''))
                 (inserted Tasks (newTaskData nc m t) w))"
  by (simp add: db_insert_eq split: option.splits)

declare clone_tasks.simps(2) [simp del]

lemma clone_tasks_append:
  "clone_tasks nc (xs @ ys) m w =
     clone_tasks nc ys (fst (clone_tasks nc xs m w)) (snd (clone_tasks nc xs m w))"
  by (induction xs arbitrary: m w) (simp_all add: clone_tasks_Cons split: option.splits)

lemma field_overlay_other:
  "k \<notin> fst ` set kvs \<Longrightarrow> field (overlay kvs r) k = field r k"
  by (induction kvs arbitrary: r) auto

lemma stored_id: "''id'' \<notin> fst ` set ob \<Longrightarrow> field (stored t ob w) ''id'' = Str (uuid w (fresh w))"
  by (simp add: stored_def field_overlay_other)

lemma newTaskData_keys:
  "fst ` set (newTaskData nc m t) = {''checklist_id'', ''parent_id'', ''title'', ''description'',
      ''order_num'', ''start_time'', ''end_time'', ''allocated_time'', ''is_completed''}"
  by (auto simp: newTaskData_def)

lemma stored_newTask_id:
  "field (stored Tasks (newTaskData nc m t) w) ''id'' = Str (uuid w (fresh w))"
  by (rule stored_id) (simp add: newTaskData_keys)

lemma stored_newTask_fields:
  "field (stored Tasks (newTaskData nc m t) w) ''checklist_id'' = nullish (field nc ''id'')"
  "field (stored Tasks (newTaskData nc m t) w) ''parent_id'' =
     nullish (if truthy (field t ''parent_id'') then lookup m (field t ''parent_id'') else Null)"
  "field (stored Tasks (newTaskData nc m t) w) ''title'' = nullish (field t ''title'')"
  "field (stored Tasks (newTaskData nc m t) w) ''description'' = nullish (field t ''description'')"
  "field (stored Tasks (newTaskData nc m t) w) ''order_num'' = nullish (field t ''order_num'')"
  "field (stored Tasks (newTaskData nc m t) w) ''start_time'' = nullish (field t ''start_time'')"
  "field (stored Tasks (newTaskData nc m t) w) ''end_time'' = nullish (field t ''end_time'')"
  "field (stored Tasks (newTaskData nc m t) w) ''allocated_time'' = nullish (field t ''allocated_time'')"
  "field (stored Tasks (newTaskData nc m t) w) ''is_completed'' = nullish (field t ''is_completed'')"
  by (simp_all add: stored_def newTaskData_def)

lemma clone_tasks_keeps:
  "key \<notin> (\<lambda>t. field t ''id'') ` set ts \<Longrightarrow> fst (clone_tasks nc ts m w) key = m key"
  by (induction ts arbitrary: m w) (auto simp: clone_tasks_Cons split: option.splits)

lemma clone_tasks_uuid [simp]: "uuid (snd (clone_tasks nc ts m w)) = uuid w"
  by (induction ts arbitrary: m w) (auto simp: clone_tasks_Cons split: option.splits)

lemma clone_tasks_defaults [simp]: "defaults (snd (clone_tasks nc ts m w)) = defaults w"
  by (induction ts arbitrary: m w) (auto simp: clone_tasks_Cons split: option.splits)

lemma clone_tasks_calls [simp]: "calls (snd (clone_tasks nc ts m w)) = calls w + length ts"
  by (induction ts arbitrary: m w) (auto simp: clone_tasks_Cons split: option.splits)

lemma clone_tasks_fault_at [simp]:
  "fault_at (snd (clone_tasks nc ts m w)) i = fault_at w (length ts + i)"
  by (induction ts arbitrary: m w) (auto simp: clone_tasks_Cons split: option.splits)

lemma clone_tasks_healthy [simp]: "healthy w \<Longrightarrow> healthy (snd (clone_tasks nc ts m w))"
  by (induction ts arbitrary: m w) (auto simp: clone_tasks_Cons split: option.splits)

lemma clone_tasks_fresh: "healthy w \<Longrightarrow> fresh (snd (clone_tasks nc ts m w)) = fresh w + length ts"
  by (induction ts arbitrary: m w) (auto simp: clone_tasks_Cons split: option.splits)

lemma clone_tasks_maps:
  "healthy w \<Longrightarrow> distinct (map (\<lambda>t. field t ''id'') ts) \<Longrightarrow> j < length ts \<Longrightarrow>
   fst (clone_tasks nc ts m w) (field (ts ! j) ''id'') = Some (Str (uuid w (fresh w + j)))"
proof (induction ts arbitrary: m w j)
  case Nil
  then show ?case by simp
next
  case (Cons t ts)
  show ?case
  proof (cases j)
    case 0
    with Cons.prems show ?thesis
      by (simp add: clone_tasks_Cons clone_tasks_keeps stored_newTask_id)
  next
    case (Suc i)
    with Cons.prems Cons.IH [of "inserted Tasks (newTaskData nc m t) w" i] show ?thesis
      by (simp add: clone_tasks_Cons)
  qed
qed

lemma clone_tasks_rows:
  "healthy w \<Longrightarrow>
   \<exists>cl. rows (snd (clone_tasks nc ts m w)) Tasks = rows w Tasks @ cl \<and> length cl = length ts \<and>
        (\<forall>i<length ts.
            cl ! i = stored Tasks
                       (newTaskData nc (fst (clone_tasks nc (take i ts) m w)) (ts ! i))
                       (snd (clone_tasks nc (take i ts) m w)))"
proof (induction ts arbitrary: m w)
  case Nil
  then show ?case by simp
next
  case (Cons t ts)
  let ?r = "stored Tasks (newTaskData nc m t) w"
  let ?m = "m(field t ''id'' \<mapsto> field ?r ''id'')"
  let ?w = "inserted Tasks (newTaskData nc m t) w"
  from Cons.prems have h: "healthy ?w" by simp
  from Cons.IH [OF h, of ?m] obtain cl where
    cl: "rows (snd (clone_tasks nc ts ?m ?w)) Tasks = rows ?w Tasks @ cl" "length cl = length ts"
      "\<forall>i<length ts. cl ! i = stored Tasks
                       (newTaskData nc (fst (clone_tasks nc (take i ts) ?m ?w)) (ts ! i))
                       (snd (clone_tasks nc (take i ts) ?m ?w))"
    by blast
  have step: "\<And>xs. clone_tasks nc (t # xs) m w = clone_tasks nc xs ?m ?w"
    using Cons.prems by (simp add: clone_tasks_Cons)
  have "\<forall>i<length (t # ts). (?r # cl) ! i = stored Tasks
                       (newTaskData nc (fst (clone_tasks nc (take i (t # ts)) m w)) ((t # ts) ! i))
                       (snd (clone_tasks nc (take i (t # ts)) m w))"
  proof (intro allI impI)
    fix i assume "i < length (t # ts)"
    then show "(?r # cl) ! i = stored Tasks
                       (newTaskData nc (fst (clone_tasks nc (take i (t # ts)) m w)) ((t # ts) ! i))
                       (snd (clone_tasks nc (take i (t # ts)) m w))"
      using cl(3) by (cases i) (simp_all add: step)
  qed
  moreover have "rows (snd (clone_tasks nc (t # ts) m w)) Tasks = rows w Tasks @ (?r # cl)"
    using cl(1) by (simp add: step)
  moreover have "length (?r # cl) = length (t # ts)"
    using cl(2) by simp
  ultimately show ?case by blast
qed


lemma clone_tasks_healthy_rows:
  assumes "healthy w" and "distinct (map (\<lambda>t. field t ''id'') ts)"
  shows "\<exists>cl. rows (snd (clone_tasks nc ts m w)) Tasks = rows w Tasks @ cl \<and> length cl = length ts \<and>
           (\<forall>i<length ts.
              field (cl ! i) ''id'' = Str (uuid w (fresh w + i)) \<and>
              field (cl ! i) ''checklist_id'' = nullish (field nc ''id'') \<and>
              (\<forall>k\<in>set copied. field (cl ! i) k = nullish (field (ts ! i) k)) \<and>
              (\<forall>j<i. truthy (field (ts ! i) ''parent_id'') \<and>
                      field (ts ! i) ''parent_id'' = field (ts ! j) ''id''
                      \<longrightarrow> field (cl ! i) ''parent_id'' = field (cl ! j) ''id''))"
proof -
  from clone_tasks_rows [OF assms(1), of nc ts m] obtain cl where
    cl: "rows (snd (clone_tasks nc ts m w)) Tasks = rows w Tasks @ cl" "length cl = length ts"
      "\<And>i. i < length ts \<Longrightarrow> cl ! i = stored Tasks
                       (newTaskData nc (fst (clone_tasks nc (take i ts) m w)) (ts ! i))
                       (snd (clone_tasks nc (take i ts) m w))"
    by blast
  have ids: "field (cl ! i) ''id'' = Str (uuid w (fresh w + i))" if "i < length ts" for i
    using that assms(1) by (simp add: cl(3) stored_newTask_id clone_tasks_fresh)
  have par: "field (cl ! i) ''parent_id'' = field (cl ! j) ''id''"
    if "i < length ts" "j < i" "truthy (field (ts ! i) ''parent_id'')"
       "field (ts ! i) ''parent_id'' = field (ts ! j) ''id''" for i j
  proof -
    have d: "distinct (map (\<lambda>t. field t ''id'') (take i ts))"
      using assms(2) by (simp add: distinct_take take_map [symmetric])
    have "fst (clone_tasks nc (take i ts) m w) (field (take i ts ! j) ''id'')
            = Some (Str (uuid w (fresh w + j)))"
      using that by (intro clone_tasks_maps [OF assms(1) d]) simp
    then have "lookup (fst (clone_tasks nc (take i ts) m w)) (field (ts ! i) ''parent_id'')
                 = Str (uuid w (fresh w + j))"
      using that by (simp add: lookup_def)
    then show ?thesis
      using that ids [of j] by (simp add: cl(3) stored_newTask_fields)
  qed
  have cp: "field (cl ! i) k = nullish (field (ts ! i) k)" if "i < length ts" "k \<in> set copied" for i k
    using that by (auto simp: cl(3) copied_def stored_newTask_fields)
  have ck: "field (cl ! i) ''checklist_id'' = nullish (field nc ''id'')" if "i < length ts" for i
    using that by (simp add: cl(3) stored_newTask_fields)
  show ?thesis
    using cl(1,2) ids par cp ck by blast
qed


subsection \<open>The accept branch\<close>

lemma stored_new_checklist:
  "field (stored Checklists (new_checklist rq src) w) ''id'' = Str (uuid w (fresh w))"
  "field (stored Checklists (new_checklist rq src) w) ''profile_id'' = nullish (field rq ''receiver_id'')"
  "field (stored Checklists (new_checklist rq src) w) ''title'' = nullish (field src ''title'')"
  "field (stored Checklists (new_checklist rq src) w) ''is_shared_copy'' = Bool True"
  by (simp_all add: stored_def new_checklist_def)

lemma accept_run:
  assumes "fault_at w 0 = None"
    and "filter (eq ''id'' (field rq ''checklist_id'')) (rows w Checklists) = [src]"
    and "fault_at w 1 = None" and "fault_at w 2 = None"
  shows "accept rq w =
           (json 200 (Obj [(''message'', Str ''Accepted and cloned checklist'')]),
            snd (clone_tasks (stored Checklists (new_checklist rq src) w) (source_tasks rq w)
                   Map.empty (advance (inserted Checklists (new_checklist rq src) (advance w)))))"
  using assms
  by (simp add: accept_def db_select_single_eq db_insert_eq db_select_eq single_def
        new_checklist_def source_tasks_def split_beta Let_def eval_nat_numeral)

lemma accept_checklists:
  assumes "fault_at w 0 = None"
    and "filter (eq ''id'' (field rq ''checklist_id'')) (rows w Checklists) = [src]"
    and "fault_at w 1 = None"
  shows "rows (snd (accept rq w)) Checklists
           = rows w Checklists @ [stored Checklists (new_checklist rq src) w]"
  using assms
  by (simp add: accept_def db_select_single_eq db_insert_eq db_select_eq single_def
        new_checklist_def split_beta clone_tasks_rows_other split: option.splits)

lemma upt_filter_Suc:
  "length (filter P [0..<Suc n]) = (if P 0 then 1 else 0) + length (filter (\<lambda>i. P (Suc i)) [0..<n])"
proof -
  have "[0..<Suc n] = 0 # map Suc [0..<n]"
    by (metis map_Suc_upt upt_conv_Cons zero_less_Suc)
  then show ?thesis
    by (simp add: filter_map o_def del: upt_Suc)
qed

lemma clone_tasks_count:
  "length (rows (snd (clone_tasks nc ts m w)) Tasks)
     = length (rows w Tasks) + length (filter (\<lambda>i. fault_at w i = None) [0..<length ts])"
proof (induction ts arbitrary: m w)
  case Nil
  then show ?case by simp
next
  case (Cons t ts)
  show ?case
    by (cases "fault_at w 0")
       (simp_all add: clone_tasks_Cons Cons.IH upt_filter_Suc del: upt_Suc)
qed

lemma respond_accept_run:
  assumes "field (body req) ''action'' = Str ''accept''"
    and "filter (eq ''id'' (Str (params_id req))) (rows w ShareRequests) = [rq]"
    and "field rq ''status'' = Str ''pending''"
    and "fault_at w 0 = None" and "fault_at w 1 = None" and "fault_at w 2 = None"
    and "filter (eq ''id'' (field rq ''checklist_id'')) (rows w Checklists) = [src]"
    and "fault_at w 3 = None" and "fault_at w 4 = None"
  shows "respond req w =
           (json 200 (Obj [(''message'', Str ''Accepted and cloned checklist'')]),
            snd (clone_tasks (stored Checklists (new_checklist rq src) w) (source_tasks rq w)
                   Map.empty
                   (advance (inserted Checklists (new_checklist rq src)
                      (advance (updated ShareRequests [(''status'', Str ''accepted'')]
                                  (eq ''id'' (Str (params_id req))) (advance w)))))))"
proof -
  let ?w2 = "updated ShareRequests [(''status'', Str ''accepted'')]
               (eq ''id'' (Str (params_id req))) (advance w)"
  have run: "respond req w = accept rq ?w2"
    using assms by (simp add: respond_pending)
  have st: "stored Checklists (new_checklist rq src) ?w2 = stored Checklists (new_checklist rq src) w"
    by (simp add: stored_def)
  have ts: "source_tasks rq ?w2 = source_tasks rq w"
    by (simp add: source_tasks_def)
  show ?thesis
    unfolding run using assms accept_run [of ?w2 rq src]
    by (simp add: st ts eval_nat_numeral)
qed

text \<open>
  C5. The checklist record an accepted request creates has \<open>is_shared_copy\<close> true, the
  receiver of the request as its owner and the title of the source checklist (\<open>nullish\<close>
  is the identity on every value a row read from the database holds).
\<close>

theorem cloned_checklist_record:
  assumes "field (body req) ''action'' = Str ''accept''"
    and "filter (eq ''id'' (Str (params_id req))) (rows w ShareRequests) = [rq]"
    and "field rq ''status'' = Str ''pending''"
    and "fault_at w 0 = None" and "fault_at w 1 = None" and "fault_at w 2 = None"
    and "filter (eq ''id'' (field rq ''checklist_id'')) (rows w Checklists) = [src]"
    and "fault_at w 3 = None"
  shows "\<exists>nc. rows (snd (respond req w)) Checklists = rows w Checklists @ [nc] \<and>
              field nc ''is_shared_copy'' = Bool True \<and>
              field nc ''profile_id'' = nullish (field rq ''receiver_id'') \<and>
              field nc ''title'' = nullish (field src ''title'')"
proof -
  let ?w2 = "updated ShareRequests [(''status'', Str ''accepted'')]
               (eq ''id'' (Str (params_id req))) (advance w)"
  have run: "respond req w = accept rq ?w2"
    using assms by (simp add: respond_pending)
  have "rows (snd (accept rq ?w2)) Checklists
          = rows ?w2 Checklists @ [stored Checklists (new_checklist rq src) ?w2]"
    using assms by (intro accept_checklists) (simp_all add: eval_nat_numeral)
  then show ?thesis
    unfolding run by (simp add: stored_new_checklist)
qed

theorem cloned_checklist_record_witness:
  "length (rows (snd (respond accept_S flaky)) Checklists) = 2 \<and>
   field (last (rows (snd (respond accept_S flaky)) Checklists)) ''is_shared_copy'' = Bool True \<and>
   field (last (rows (snd (respond accept_S flaky)) Checklists)) ''profile_id'' = Str ''B'' \<and>
   field (last (rows (snd (respond accept_S flaky)) Checklists)) ''title'' = Str ''Trip''"
proof -
  have r: "rows flaky = rows trip"
    by (simp add: flaky_def)
  have f: "fault_at flaky 0 = None" "fault_at flaky 1 = None" "fault_at flaky 2 = None"
    "fault_at flaky 3 = None"
    by (simp_all add: flaky_def fault_at_def)
  have q: "filter (eq ''id'' (Str (params_id accept_S))) (rows flaky ShareRequests) = [request_S]"
    by (rule trip_request) (simp add: r)
  have c: "filter (eq ''id'' (field request_S ''checklist_id'')) (rows flaky Checklists) = [checklist_C]"
    by (rule trip_source) (simp add: r)
  from cloned_checklist_record [OF accept_S_simps(2) q trip_facts(1) f(1,2,3) c f(4)]
  show ?thesis by (auto simp: r trip_facts)
qed

text \<open>
  C8. Accepting a request whose source checklist has no tasks succeeds: the answer is
  the 200 of a finished clone, one checklist is added and the table of tasks is as it was.
\<close>

theorem clone_without_tasks:
  assumes "field (body req) ''action'' = Str ''accept''"
    and "filter (eq ''id'' (Str (params_id req))) (rows w ShareRequests) = [rq]"
    and "field rq ''status'' = Str ''pending''"
    and "fault_at w 0 = None" and "fault_at w 1 = None" and "fault_at w 2 = None"
    and "filter (eq ''id'' (field rq ''checklist_id'')) (rows w Checklists) = [src]"
    and "fault_at w 3 = None" and "fault_at w 4 = None"
    and "filter (eq ''checklist_id'' (field rq ''checklist_id'')) (rows w Tasks) = []"
  shows "fst (respond req w) = json 200 (Obj [(''message'', Str ''Accepted and cloned checklist'')]) \<and>
         rows (snd (respond req w)) Tasks = rows w Tasks \<and>
         (\<exists>nc. rows (snd (respond req w)) Checklists = rows w Checklists @ [nc])"
proof -
  have ts: "source_tasks rq w = []"
    using assms(10) by (simp add: source_tasks_def order_def)
  have run: "respond req w =
           (json 200 (Obj [(''message'', Str ''Accepted and cloned checklist'')]),
            advance (inserted Checklists (new_checklist rq src)
                      (advance (updated ShareRequests [(''status'', Str ''accepted'')]
                                  (eq ''id'' (Str (params_id req))) (advance w)))))"
    using respond_accept_run [OF assms(1-9)] by (simp add: ts)
  show ?thesis
    unfolding run by simp
qed

theorem clone_without_tasks_witness:
  "fst (respond accept_S bare) = json 200 (Obj [(''message'', Str ''Accepted and cloned checklist'')]) \<and>
   rows (snd (respond accept_S bare)) Tasks = [] \<and>
   length (rows (snd (respond accept_S bare)) Checklists) = 2"
proof -
  have r: "rows bare ShareRequests = rows trip ShareRequests"
    "rows bare Checklists = rows trip Checklists" "rows bare Tasks = []"
    by (simp_all add: bare_def)
  have f: "fault_at bare 0 = None" "fault_at bare 1 = None" "fault_at bare 2 = None"
    "fault_at bare 3 = None" "fault_at bare 4 = None"
    by (simp_all add: bare_def trip_def fault_at_def)
  have e: "filter (eq ''checklist_id'' (field request_S ''checklist_id'')) (rows bare Tasks) = []"
    by (simp add: r)
  from clone_without_tasks
         [OF accept_S_simps(2) trip_request [OF r(1)] trip_facts(1) f(1,2,3)
             trip_source [OF r(2)] f(4,5) e]
  show ?thesis by (auto simp: r trip_facts)
qed

subsection \<open>The order of creation\<close>

lemma set_insort_by [simp]: "set (insort_by le x ys) = insert x (set ys)"
  by (induction ys) auto

lemma set_order [simp]: "set (order c a rs) = set rs"
  unfolding order_def by (induction rs) auto

lemma asc_le_total: "asc_le c a b \<or> asc_le c b a"
  by (auto simp: asc_le_def split: jsval.splits)

lemma asc_le_trans: "asc_le c a b \<Longrightarrow> asc_le c b d \<Longrightarrow> asc_le c a d"
  by (auto simp: asc_le_def split: jsval.splits)

lemma sorted_insort_by:
  "sorted_wrt (asc_le c) ys \<Longrightarrow> sorted_wrt (asc_le c) (insort_by (asc_le c) x ys)"
proof (induction ys)
  case Nil
  then show ?case by simp
next
  case (Cons y ys)
  show ?case
  proof (cases "asc_le c x y")
    case True
    with Cons.prems show ?thesis
      by (auto intro: asc_le_trans)
  next
    case False
    with asc_le_total [of c x y] have "asc_le c y x" by blast
    with False Cons show ?thesis
      by auto
  qed
qed

lemma sorted_order: "sorted_wrt (asc_le c) (order c True rs)"
  unfolding order_def by (induction rs) (simp_all add: sorted_insort_by)

lemma order_created_before:
  assumes "i < length (order c True rs)" and "j < length (order c True rs)"
    and "field (order c True rs ! j) c = Num x" and "field (order c True rs ! i) c = Num y"
    and "x < y"
  shows "j < i"
proof (rule ccontr)
  assume "\<not> j < i"
  then consider "i = j" | "i < j" by linarith
  then show False
  proof cases
    case 1
    with assms(3,4,5) show False by simp
  next
    case 2
    with sorted_order [of c rs] assms(2)
    have "asc_le c (order c True rs ! i) (order c True rs ! j)"
      by (simp add: sorted_wrt_iff_nth_less)
    with assms(3,4,5) show False
      by (simp add: asc_le_def)
  qed
qed


lemma length_insort_by [simp]: "length (insort_by le x ys) = Suc (length ys)"
  by (induction ys) auto

lemma length_order [simp]: "length (order c a rs) = length rs"
  unfolding order_def by (induction rs) auto

text \<open>
  C1. Accepting a share request whose source checklist has the tasks \<open>ts\<close> adds one task
  for each of them under the new checklist, with the title, description, order number,
  start and end time, allocated time and completion flag of its original. \<open>ts\<close> holds
  the tasks of the source checklist, each once, sorted by \<open>created_at\<close>; so where the
  parent of a task is a task with an earlier \<open>created_at\<close> (or, among equal stamps, one
  that stands before it), the parent of its clone is the clone of that task. The service
  answers every call and identifiers are unique, as a primary key is.
\<close>

theorem clone_preserves_tree:
  assumes "field (body req) ''action'' = Str ''accept''"
    and "filter (eq ''id'' (Str (params_id req))) (rows w ShareRequests) = [rq]"
    and "field rq ''status'' = Str ''pending''"
    and "filter (eq ''id'' (field rq ''checklist_id'')) (rows w Checklists) = [src]"
    and "healthy w"
    and "distinct (map (\<lambda>t. field t ''id'') (source_tasks rq w))"
  shows "set (source_tasks rq w)
           = set (filter (eq ''checklist_id'' (field rq ''checklist_id'')) (rows w Tasks)) \<and>
         length (source_tasks rq w)
           = length (filter (eq ''checklist_id'' (field rq ''checklist_id'')) (rows w Tasks)) \<and>
         (\<exists>nc cl.
           rows (snd (respond req w)) Checklists = rows w Checklists @ [nc] \<and>
           rows (snd (respond req w)) Tasks = rows w Tasks @ cl \<and>
           length cl = length (source_tasks rq w) \<and>
           (\<forall>i<length (source_tasks rq w).
              field (cl ! i) ''id'' = Str (uuid w (fresh w + Suc i)) \<and>
              field (cl ! i) ''checklist_id'' = field nc ''id'' \<and>
              (\<forall>k\<in>set copied. field (cl ! i) k = nullish (field (source_tasks rq w ! i) k)) \<and>
              (\<forall>j<i. truthy (field (source_tasks rq w ! i) ''parent_id'') \<and>
                      field (source_tasks rq w ! i) ''parent_id'' = field (source_tasks rq w ! j) ''id''
                      \<longrightarrow> field (cl ! i) ''parent_id'' = field (cl ! j) ''id'') \<and>
              (\<forall>j<length (source_tasks rq w). \<forall>x y.
                      field (source_tasks rq w ! j) ''created_at'' = Num x \<and>
                      field (source_tasks rq w ! i) ''created_at'' = Num y \<and> x < y \<and>
                      truthy (field (source_tasks rq w ! i) ''parent_id'') \<and>
                      field (source_tasks rq w ! i) ''parent_id'' = field (source_tasks rq w ! j) ''id''
                      \<longrightarrow> field (cl ! i) ''parent_id'' = field (cl ! j) ''id'')))"
proof -
  let ?nc = "stored Checklists (new_checklist rq src) w"
  let ?w5 = "advance (inserted Checklists (new_checklist rq src)
                      (advance (updated ShareRequests [(''status'', Str ''accepted'')]
                                  (eq ''id'' (Str (params_id req))) (advance w))))"
  have run: "snd (respond req w) = snd (clone_tasks ?nc (source_tasks rq w) Map.empty ?w5)"
    using respond_accept_run [OF assms(1-3) _ _ _ assms(4)] assms(5) by simp
  have h: "healthy ?w5"
    using assms(5) by simp
  have nc: "nullish (field ?nc ''id'') = field ?nc ''id''"
    by (simp add: stored_new_checklist)
  from clone_tasks_healthy_rows [OF h assms(6), of ?nc Map.empty] obtain cl where
    cl: "rows (snd (clone_tasks ?nc (source_tasks rq w) Map.empty ?w5)) Tasks = rows ?w5 Tasks @ cl"
      "length cl = length (source_tasks rq w)"
      "\<forall>i<length (source_tasks rq w).
              field (cl ! i) ''id'' = Str (uuid ?w5 (fresh ?w5 + i)) \<and>
              field (cl ! i) ''checklist_id'' = nullish (field ?nc ''id'') \<and>
              (\<forall>k\<in>set copied. field (cl ! i) k = nullish (field (source_tasks rq w ! i) k)) \<and>
              (\<forall>j<i. truthy (field (source_tasks rq w ! i) ''parent_id'') \<and>
                      field (source_tasks rq w ! i) ''parent_id'' = field (source_tasks rq w ! j) ''id''
                      \<longrightarrow> field (cl ! i) ''parent_id'' = field (cl ! j) ''id'')"
    by blast
  have a: "rows (snd (respond req w)) Checklists = rows w Checklists @ [?nc]"
    unfolding run by (simp add: clone_tasks_rows_other)
  have b: "rows (snd (respond req w)) Tasks = rows w Tasks @ cl"
    unfolding run using cl(1) by simp
  note at = cl(3) [rule_format]
  have ids: "field (cl ! i) ''id'' = Str (uuid w (fresh w + Suc i))"
    if "i < length (source_tasks rq w)" for i
    using at [OF that, THEN conjunct1] by simp
  have ck: "field (cl ! i) ''checklist_id'' = field ?nc ''id''"
    if "i < length (source_tasks rq w)" for i
    using at [OF that, THEN conjunct2, THEN conjunct1] by (simp only: nc)
  have cp: "field (cl ! i) k = nullish (field (source_tasks rq w ! i) k)"
    if "i < length (source_tasks rq w)" "k \<in> set copied" for i k
    using at [OF that(1), THEN conjunct2, THEN conjunct2, THEN conjunct1] that(2) by blast
  have par: "field (cl ! i) ''parent_id'' = field (cl ! j) ''id''"
    if "i < length (source_tasks rq w)" "j < i"
      "truthy (field (source_tasks rq w ! i) ''parent_id'') \<and>
       field (source_tasks rq w ! i) ''parent_id'' = field (source_tasks rq w ! j) ''id''" for i j
    using at [OF that(1), THEN conjunct2, THEN conjunct2, THEN conjunct2] that(2,3) by blast
  have before: "field (cl ! i) ''parent_id'' = field (cl ! j) ''id''"
    if "i < length (source_tasks rq w)" "j < length (source_tasks rq w)"
      "field (source_tasks rq w ! j) ''created_at'' = Num x \<and>
       field (source_tasks rq w ! i) ''created_at'' = Num y \<and> x < y \<and>
       truthy (field (source_tasks rq w ! i) ''parent_id'') \<and>
       field (source_tasks rq w ! i) ''parent_id'' = field (source_tasks rq w ! j) ''id''"
    for i j x y
  proof -
    from that(3) have c: "field (source_tasks rq w ! j) ''created_at'' = Num x"
      "field (source_tasks rq w ! i) ''created_at'' = Num y" "x < y"
      and p: "truthy (field (source_tasks rq w ! i) ''parent_id'') \<and>
       field (source_tasks rq w ! i) ''parent_id'' = field (source_tasks rq w ! j) ''id''"
      by blast+
    have "j < i"
      using that(1,2) c unfolding source_tasks_def by (rule order_created_before)
    with that(1) show ?thesis
      using p by (rule par)
  qed
  have s: "set (source_tasks rq w)
           = set (filter (eq ''checklist_id'' (field rq ''checklist_id'')) (rows w Tasks))"
    "length (source_tasks rq w)
           = length (filter (eq ''checklist_id'' (field rq ''checklist_id'')) (rows w Tasks))"
    by (simp_all add: source_tasks_def)
  show ?thesis
  proof (intro conjI exI [of _ ?nc] exI [of _ cl] allI impI ballI)
    fix i j x y
    assume "i < length (source_tasks rq w)" "j < length (source_tasks rq w)"
      "field (source_tasks rq w ! j) ''created_at'' = Num x \<and>
       field (source_tasks rq w ! i) ''created_at'' = Num y \<and> x < y \<and>
       truthy (field (source_tasks rq w ! i) ''parent_id'') \<and>
       field (source_tasks rq w ! i) ''parent_id'' = field (source_tasks rq w ! j) ''id''"
    then show "field (cl ! i) ''parent_id'' = field (cl ! j) ''id''"
      by (rule before)
  next
    fix i j
    assume "i < length (source_tasks rq w)" "j < i"
      "truthy (field (source_tasks rq w ! i) ''parent_id'') \<and>
       field (source_tasks rq w ! i) ''parent_id'' = field (source_tasks rq w ! j) ''id''"
    then show "field (cl ! i) ''parent_id'' = field (cl ! j) ''id''"
      by (rule par)
  qed (simp_all add: a b cl(2) s ids ck cp)
qed


lemma trip_source_tasks:
  "rows w Tasks = rows trip Tasks \<Longrightarrow> source_tasks request_S w = [task_Pack, task_Shoes]"
  by (simp add: source_tasks_def trip_def request_S_def task_Pack_def task_Shoes_def
        eq_def field_def order_def asc_le_def)

theorem clone_preserves_tree_witness:
  "length (rows (snd (respond accept_S trip)) Tasks) = 4 \<and>
   field (rows (snd (respond accept_S trip)) Tasks ! 3) ''title'' = Str ''Shoes'' \<and>
   field (rows (snd (respond accept_S trip)) Tasks ! 3) ''is_completed'' = Bool True \<and>
   field (rows (snd (respond accept_S trip)) Tasks ! 3) ''checklist_id''
     = field (last (rows (snd (respond accept_S trip)) Checklists)) ''id'' \<and>
   field (rows (snd (respond accept_S trip)) Tasks ! 3) ''parent_id''
     = field (rows (snd (respond accept_S trip)) Tasks ! 2) ''id''"
proof -
  have ts: "source_tasks request_S trip = [task_Pack, task_Shoes]"
    by (rule trip_source_tasks) simp
  have d: "distinct (map (\<lambda>t. field t ''id'') (source_tasks request_S trip))"
    by (simp add: ts task_Pack_def task_Shoes_def field_def)
  from clone_preserves_tree
         [OF accept_S_simps(2) trip_request trip_facts(1) trip_source trip_facts(8) d,
          THEN conjunct2, THEN conjunct2]
  obtain nc cl where
    cl: "rows (snd (respond accept_S trip)) Checklists = rows trip Checklists @ [nc]"
      "rows (snd (respond accept_S trip)) Tasks = rows trip Tasks @ cl"
      "length cl = length (source_tasks request_S trip)"
      "\<forall>i<length (source_tasks request_S trip).
              field (cl ! i) ''id'' = Str (uuid trip (fresh trip + Suc i)) \<and>
              field (cl ! i) ''checklist_id'' = field nc ''id'' \<and>
              (\<forall>k\<in>set copied. field (cl ! i) k = nullish (field (source_tasks request_S trip ! i) k)) \<and>
              (\<forall>j<i. truthy (field (source_tasks request_S trip ! i) ''parent_id'') \<and>
                      field (source_tasks request_S trip ! i) ''parent_id''
                        = field (source_tasks request_S trip ! j) ''id''
                      \<longrightarrow> field (cl ! i) ''parent_id'' = field (cl ! j) ''id'') \<and>
              (\<forall>j<length (source_tasks request_S trip). \<forall>x y.
                      field (source_tasks request_S trip ! j) ''created_at'' = Num x \<and>
                      field (source_tasks request_S trip ! i) ''created_at'' = Num y \<and> x < y \<and>
                      truthy (field (source_tasks request_S trip ! i) ''parent_id'') \<and>
                      field (source_tasks request_S trip ! i) ''parent_id''
                        = field (source_tasks request_S trip ! j) ''id''
                      \<longrightarrow> field (cl ! i) ''parent_id'' = field (cl ! j) ''id'')"
    by auto
  have len: "1 < length (source_tasks request_S trip)" "0 < length (source_tasks request_S trip)"
    by (simp_all add: ts)
  note at = cl(4) [rule_format, OF len(1)]
  have ck: "field (cl ! 1) ''checklist_id'' = field nc ''id''"
    using at [THEN conjunct2, THEN conjunct1] .
  have cp: "field (cl ! 1) k = nullish (field task_Shoes k)" if "k \<in> set copied" for k
    using at [THEN conjunct2, THEN conjunct2, THEN conjunct1] that by (simp add: ts)
  have "field (source_tasks request_S trip ! 0) ''created_at'' = Num 4 \<and>
        field (source_tasks request_S trip ! 1) ''created_at'' = Num 5 \<and> (4::int) < 5 \<and>
        truthy (field (source_tasks request_S trip ! 1) ''parent_id'') \<and>
        field (source_tasks request_S trip ! 1) ''parent_id''
          = field (source_tasks request_S trip ! 0) ''id''"
    by (simp add: ts task_Shoes_def task_Pack_def field_def)
  with at [THEN conjunct2, THEN conjunct2, THEN conjunct2, THEN conjunct2,
           rule_format, OF len(2), of 4 5]
  have par: "field (cl ! 1) ''parent_id'' = field (cl ! 0) ''id''"
    by blast
  have "field task_Shoes ''title'' = Str ''Shoes''" "field task_Shoes ''is_completed'' = Bool True"
    by (simp_all add: task_Shoes_def field_def)
  with cp [of "''title''"] cp [of "''is_completed''"]
  have "field (cl ! 1) ''title'' = Str ''Shoes''" "field (cl ! 1) ''is_completed'' = Bool True"
    by (simp_all add: copied_def)
  with ck par cl(1,2,3) show ?thesis
    by (simp add: ts trip_facts nth_append eval_nat_numeral)
qed

text \<open>
  C4. Within one accept: a failed fetch of the source checklist, or of its tasks, makes
  the whole operation answer 500. A failed insert of a task does neither: once both
  fetches have succeeded the answer is the 200 of a finished clone whatever the inserts
  meet, the loop makes one insert for every task, and every insert that is answered
  adds its row.
\<close>

theorem clone_failure_semantics:
  assumes "field (body req) ''action'' = Str ''accept''"
    and "filter (eq ''id'' (Str (params_id req))) (rows w ShareRequests) = [rq]"
    and "field rq ''status'' = Str ''pending''"
    and "fault_at w 0 = None" and "fault_at w 1 = None"
  shows "(fault_at w 2 \<noteq> None \<or>
          (\<forall>c. filter (eq ''id'' (field rq ''checklist_id'')) (rows w Checklists) \<noteq> [c])
          \<longrightarrow> map_option status (fst (respond req w)) = Some 500) \<and>
         (fault_at w 2 = None \<and> fault_at w 3 = None \<and> fault_at w 4 \<noteq> None
          \<longrightarrow> map_option status (fst (respond req w)) = Some 500) \<and>
         (fault_at w 2 = None \<and>
          filter (eq ''id'' (field rq ''checklist_id'')) (rows w Checklists) = [src] \<and>
          fault_at w 3 = None \<and> fault_at w 4 = None
          \<longrightarrow> fst (respond req w)
                = json 200 (Obj [(''message'', Str ''Accepted and cloned checklist'')]) \<and>
              calls (snd (respond req w)) = calls w + 5 + length (source_tasks rq w) \<and>
              length (rows (snd (respond req w)) Tasks)
                = length (rows w Tasks) +
                  length (filter (\<lambda>i. fault_at w (5 + i) = None)
                            [0..<length (source_tasks rq w)]))"
proof -
  let ?w2 = "updated ShareRequests [(''status'', Str ''accepted'')]
               (eq ''id'' (Str (params_id req))) (advance w)"
  have run: "respond req w = accept rq ?w2"
    using assms by (simp add: respond_pending)
  have a: "map_option status (fst (accept rq ?w2)) = Some 500"
    if "fault_at w 2 \<noteq> None \<or>
          (\<forall>c. filter (eq ''id'' (field rq ''checklist_id'')) (rows w Checklists) \<noteq> [c])"
    using that
    by (auto simp: accept_def db_select_single_eq single_def json_def eval_nat_numeral
          split: option.splits sum.splits list.splits)
  have b: "map_option status (fst (accept rq ?w2)) = Some 500"
    if "fault_at w 2 = None \<and> fault_at w 3 = None \<and> fault_at w 4 \<noteq> None"
    using that
    by (auto simp: accept_def db_select_single_eq db_insert_eq db_select_eq single_def
          json_def eval_nat_numeral
          split: option.splits sum.splits list.splits)
  have c: "fst (respond req w)
                = json 200 (Obj [(''message'', Str ''Accepted and cloned checklist'')]) \<and>
              calls (snd (respond req w)) = calls w + 5 + length (source_tasks rq w) \<and>
              length (rows (snd (respond req w)) Tasks)
                = length (rows w Tasks) +
                  length (filter (\<lambda>i. fault_at w (5 + i) = None)
                            [0..<length (source_tasks rq w)])"
    if "fault_at w 2 = None \<and>
          filter (eq ''id'' (field rq ''checklist_id'')) (rows w Checklists) = [src] \<and>
          fault_at w 3 = None \<and> fault_at w 4 = None"
  proof -
    from that have t: "fault_at w 2 = None"
      "filter (eq ''id'' (field rq ''checklist_id'')) (rows w Checklists) = [src]"
      "fault_at w 3 = None" "fault_at w 4 = None"
      by simp_all
    show ?thesis
      unfolding respond_accept_run [OF assms t]
      by (simp add: clone_tasks_count eval_nat_numeral)
  qed
  show ?thesis
    using a b c unfolding run by blast
qed

theorem clone_failure_semantics_witness:
  "map_option status (fst (respond accept_S outage)) = Some 500 \<and>
   map_option status (fst (respond accept_S late_outage)) = Some 500 \<and>
   fst (respond accept_S flaky)
     = json 200 (Obj [(''message'', Str ''Accepted and cloned checklist'')]) \<and>
   calls (snd (respond accept_S flaky)) = 7 \<and>
   length (rows (snd (respond accept_S flaky)) Tasks) = 3"
proof -
  have r: "rows outage = rows trip" "rows late_outage = rows trip" "rows flaky = rows trip"
    "calls flaky = 0"
    by (simp_all add: outage_def late_outage_def flaky_def trip_def)
  have f: "fault_at outage 0 = None" "fault_at outage 1 = None" "fault_at outage 2 \<noteq> None"
    by (simp_all add: outage_def fault_at_def)
  have l: "fault_at late_outage 0 = None" "fault_at late_outage 1 = None"
    "fault_at late_outage 2 = None" "fault_at late_outage 3 = None"
    "fault_at late_outage 4 \<noteq> None"
    by (simp_all add: late_outage_def fault_at_def)
  have g: "fault_at flaky 0 = None" "fault_at flaky 1 = None" "fault_at flaky 2 = None"
    "fault_at flaky 3 = None" "fault_at flaky 4 = None"
    by (simp_all add: flaky_def fault_at_def)
  have q: "filter (eq ''id'' (Str (params_id accept_S))) (rows outage ShareRequests) = [request_S]"
    "filter (eq ''id'' (Str (params_id accept_S))) (rows late_outage ShareRequests) = [request_S]"
    "filter (eq ''id'' (Str (params_id accept_S))) (rows flaky ShareRequests) = [request_S]"
    by (rule trip_request, simp add: r)+
  have c: "filter (eq ''id'' (field request_S ''checklist_id'')) (rows flaky Checklists) = [checklist_C]"
    by (rule trip_source) (simp add: r)
  have ts: "source_tasks request_S flaky = [task_Pack, task_Shoes]"
    by (rule trip_source_tasks) (simp add: r)
  have n: "length (filter (\<lambda>i. fault_at flaky (5 + i) = None)
                     [0..<length (source_tasks request_S flaky)]) = 1"
    unfolding ts by (simp add: flaky_def fault_at_def upt_conv_Cons)
  from clone_failure_semantics [OF accept_S_simps(2) q(1) trip_facts(1) f(1,2)] f(3)
  have one: "map_option status (fst (respond accept_S outage)) = Some 500"
    by blast
  from clone_failure_semantics [OF accept_S_simps(2) q(2) trip_facts(1) l(1,2)] l(3,4,5)
  have late: "map_option status (fst (respond accept_S late_outage)) = Some 500"
    by blast
  from clone_failure_semantics [OF accept_S_simps(2) q(3) trip_facts(1) g(1,2), of checklist_C]
    g(3,4,5) c
  have two: "fst (respond accept_S flaky)
     = json 200 (Obj [(''message'', Str ''Accepted and cloned checklist'')])"
   "calls (snd (respond accept_S flaky)) = calls flaky + 5 + length (source_tasks request_S flaky)"
   "length (rows (snd (respond accept_S flaky)) Tasks)
                = length (rows flaky Tasks) +
                  length (filter (\<lambda>i. fault_at flaky (5 + i) = None)
                            [0..<length (source_tasks request_S flaky)])"
    by blast+
  show ?thesis
    using one late two(1,2) two(3) [unfolded n] by (simp add: ts r trip_facts)
qed

subsection \<open>The guards of respond\<close>

lemma overlay_status [simp]: "overlay [(''status'', Str s)] r = assign ''status'' (Str s) r"
  by simp

lemma respond_rejects:
  assumes "\<And>r. filter (eq ''id'' (Str (params_id req))) (rows w ShareRequests) = [r]
             \<Longrightarrow> field r ''status'' \<noteq> Str ''pending''"
  shows "rows (snd (respond req w)) = rows w \<and>
         (map_option status (fst (respond req w)) = Some 400 \<or>
          map_option status (fst (respond req w)) = Some 404)"
  using assms
  by (auto simp: respond_def db_select_single_eq single_def json_def Let_def
        split: option.splits list.splits)

lemma respond_not_found:
  assumes "field (body req) ''action'' = Str ''accept'' \<or> field (body req) ''action'' = Str ''reject''"
    and "fault_at w 0 \<noteq> None \<or>
         (\<forall>r. filter (eq ''id'' (Str (params_id req))) (rows w ShareRequests) \<noteq> [r])"
  shows "fst (respond req w) = json 404 (error_body ''Request not found'') \<and>
         rows (snd (respond req w)) = rows w"
  using assms
  by (auto simp: respond_def db_select_single_eq single_def Let_def
        split: option.splits list.splits)

lemma respond_processed:
  assumes "field (body req) ''action'' = Str ''accept'' \<or> field (body req) ''action'' = Str ''reject''"
    and "fault_at w 0 = None"
    and "filter (eq ''id'' (Str (params_id req))) (rows w ShareRequests) = [rq]"
    and "field rq ''status'' \<noteq> Str ''pending''"
  shows "fst (respond req w) = json 400 (error_body ''Request already processed'') \<and>
         rows (snd (respond req w)) = rows w"
  using assms
  by (auto simp: respond_def db_select_single_eq single_def Let_def)

lemma respond_transition:
  assumes "rows (snd (respond req w)) ShareRequests \<noteq> rows w ShareRequests"
  shows "\<exists>r s. filter (eq ''id'' (Str (params_id req))) (rows w ShareRequests) = [r] \<and>
           field r ''status'' = Str ''pending'' \<and>
           (s = ''accepted'' \<or> s = ''rejected'') \<and>
           rows (snd (respond req w)) ShareRequests
             = map (\<lambda>x. if eq ''id'' (Str (params_id req)) x
                         then assign ''status'' (Str s) x else x) (rows w ShareRequests)"
  using assms
  by (auto simp: respond_def db_select_single_eq db_update_eq single_def Let_def sent_def
        accept_rows_other
        split: option.splits list.splits if_splits)


lemma respond_accept_status:
  assumes "field (body req) ''action'' = Str ''accept''"
    and "filter (eq ''id'' (Str (params_id req))) (rows w ShareRequests) = [rq]"
    and "field rq ''status'' = Str ''pending''"
    and "fault_at w 0 = None" and "fault_at w 1 = None"
  shows "filter (eq ''id'' (Str (params_id req))) (rows (snd (respond req w)) ShareRequests)
           = [assign ''status'' (Str ''accepted'') rq]"
proof -
  have "rows (snd (respond req w)) ShareRequests
          = rows (updated ShareRequests [(''status'', Str ''accepted'')]
               (eq ''id'' (Str (params_id req))) (advance w)) ShareRequests"
    using assms by (simp add: respond_pending accept_rows_other)
  then show ?thesis
    using assms(2) by (simp add: filter_map_if)
qed

text \<open>
  C3, as amended: for responses handled one after the other, each finished before the
  next begins. A request id that is not found (no row, or a fetch that fails) is
  answered 404, a request that is found but is not pending 400, and neither changes any
  table, so neither clones. The table of share requests changes only when a pending
  request goes to \<open>accepted\<close> or \<open>rejected\<close>; and after that, responding to the same id
  again is answered 400 or 404 and changes nothing.
\<close>

theorem respond_fires_once:
  "(field (body req) ''action'' = Str ''accept'' \<or> field (body req) ''action'' = Str ''reject''
    \<longrightarrow>
      (fault_at w 0 \<noteq> None \<or>
       (\<forall>r. filter (eq ''id'' (Str (params_id req))) (rows w ShareRequests) \<noteq> [r])
       \<longrightarrow> fst (respond req w) = json 404 (error_body ''Request not found'') \<and>
           rows (snd (respond req w)) = rows w) \<and>
      (fault_at w 0 = None \<and>
       filter (eq ''id'' (Str (params_id req))) (rows w ShareRequests) = [rq] \<and>
       field rq ''status'' \<noteq> Str ''pending''
       \<longrightarrow> fst (respond req w) = json 400 (error_body ''Request already processed'') \<and>
           rows (snd (respond req w)) = rows w)) \<and>
   (rows (snd (respond req w)) ShareRequests \<noteq> rows w ShareRequests
    \<longrightarrow>
      (\<exists>r s. filter (eq ''id'' (Str (params_id req))) (rows w ShareRequests) = [r] \<and>
             field r ''status'' = Str ''pending'' \<and>
             (s = ''accepted'' \<or> s = ''rejected'') \<and>
             rows (snd (respond req w)) ShareRequests
               = map (\<lambda>x. if eq ''id'' (Str (params_id req)) x
                           then assign ''status'' (Str s) x else x) (rows w ShareRequests)) \<and>
      (params_id again = params_id req
       \<longrightarrow> rows (snd (respond again (snd (respond req w)))) = rows (snd (respond req w)) \<and>
           (map_option status (fst (respond again (snd (respond req w)))) = Some 400 \<or>
            map_option status (fst (respond again (snd (respond req w)))) = Some 404)))"
proof -
  have twice: "rows (snd (respond again (snd (respond req w)))) = rows (snd (respond req w)) \<and>
           (map_option status (fst (respond again (snd (respond req w)))) = Some 400 \<or>
            map_option status (fst (respond again (snd (respond req w)))) = Some 404)"
    if ch: "rows (snd (respond req w)) ShareRequests \<noteq> rows w ShareRequests"
      and same: "params_id again = params_id req"
  proof (rule respond_rejects)
    fix r'
    assume a: "filter (eq ''id'' (Str (params_id again)))
                 (rows (snd (respond req w)) ShareRequests) = [r']"
    from respond_transition [OF ch] obtain r s where
      r: "filter (eq ''id'' (Str (params_id req))) (rows w ShareRequests) = [r]"
        "s = ''accepted'' \<or> s = ''rejected''"
        "rows (snd (respond req w)) ShareRequests
             = map (\<lambda>x. if eq ''id'' (Str (params_id req)) x
                         then assign ''status'' (Str s) x else x) (rows w ShareRequests)"
      by blast
    have "filter (eq ''id'' (Str (params_id req))) (rows (snd (respond req w)) ShareRequests)
            = [assign ''status'' (Str s) r]"
      unfolding r(3) using r(1) by (simp add: filter_map_if)
    with a same have "r' = assign ''status'' (Str s) r"
      by simp
    with r(2) show "field r' ''status'' \<noteq> Str ''pending''"
      by auto
  qed
  show ?thesis
    using respond_not_found [of req w] respond_processed [of req w rq]
      respond_transition [of req w] twice
    by blast
qed


lemma accept_healthy: "healthy w \<Longrightarrow> healthy (snd (accept rq w))"
  by (auto simp: accept_def db_select_single_eq db_insert_eq db_select_eq split_beta Let_def
        split: option.splits sum.splits)

lemma respond_healthy: "healthy w \<Longrightarrow> healthy (snd (respond req w))"
  by (auto simp: respond_def db_select_single_eq db_update_eq accept_healthy Let_def
        split: option.splits sum.splits)

theorem respond_fires_once_witness:
  "fst (respond accept_X trip) = json 404 (error_body ''Request not found'') \<and>
   rows (snd (respond accept_X trip)) = rows trip \<and>
   rows (snd (respond accept_S trip)) ShareRequests \<noteq> rows trip ShareRequests \<and>
   fst (respond accept_S (snd (respond accept_S trip)))
     = json 400 (error_body ''Request already processed'') \<and>
   rows (snd (respond accept_S (snd (respond accept_S trip)))) = rows (snd (respond accept_S trip))"
proof -
  let ?w = "snd (respond accept_S trip)"
  have x: "field (body accept_X) ''action'' = Str ''accept''"
    "\<forall>r. filter (eq ''id'' (Str (params_id accept_X))) (rows trip ShareRequests) \<noteq> [r]"
    by (simp_all add: accept_X_def trip_def request_S_def field_def eq_def)
  have f: "fault_at trip 0 = None" "fault_at trip 1 = None" "fault_at ?w 0 = None"
    using trip_facts(8) respond_healthy [of trip accept_S] by simp_all
  have q: "filter (eq ''id'' (Str (params_id accept_S))) (rows trip ShareRequests) = [request_S]"
    by (rule trip_request) simp
  have st: "filter (eq ''id'' (Str (params_id accept_S))) (rows ?w ShareRequests)
              = [assign ''status'' (Str ''accepted'') request_S]"
    by (rule respond_accept_status [OF accept_S_simps(2) q trip_facts(1) f(1,2)])
  have np: "field (assign ''status'' (Str ''accepted'') request_S) ''status'' \<noteq> Str ''pending''"
    by simp
  have "assign ''status'' (Str ''accepted'') request_S \<noteq> request_S"
    by (simp add: request_S_def)
  with st q have ch: "rows ?w ShareRequests \<noteq> rows trip ShareRequests"
    by auto
  from respond_fires_once [of accept_X trip] x
  have one: "fst (respond accept_X trip) = json 404 (error_body ''Request not found'')"
    "rows (snd (respond accept_X trip)) = rows trip"
    by blast+
  from respond_fires_once [of accept_S ?w "assign ''status'' (Str ''accepted'') request_S"]
    accept_S_simps(2) f(3) st np
  have two: "fst (respond accept_S ?w) = json 400 (error_body ''Request already processed'')"
    by blast
  from respond_fires_once [of accept_S trip _ accept_S] ch
  have three: "rows (snd (respond accept_S ?w)) = rows ?w"
    by blast
  show ?thesis
    using one ch two three by simp
qed

lemma respond_phases:
  "respond req w =
     (case respond_check req w of
        (Inl res, w1) \<Rightarrow> (res, w1)
      | (Inr request, w1) \<Rightarrow> respond_write req request w1)"
  by (simp add: respond_def respond_check_def respond_write_def Let_def
        split: prod.splits sum.splits)

text \<open>
  C3 as the specification states it fails: the check of the status and the write of the
  status are two calls, and the write does not ask for the status again. When two
  accepts of one pending request both read it before either writes, both pass the check,
  both are answered 200 and both clone: the one checklist with two tasks has become
  three checklists and six tasks.
\<close>

theorem interleaved_accepts_counterexample:
  "fst (respond_check accept_S trip) = Inr request_S \<and>
   fst (respond_check accept_S one_checked) = Inr request_S \<and>
   fst (respond_write accept_S request_S both_checked)
     = json 200 (Obj [(''message'', Str ''Accepted and cloned checklist'')]) \<and>
   fst (respond_write accept_S request_S one_written)
     = json 200 (Obj [(''message'', Str ''Accepted and cloned checklist'')]) \<and>
   length (rows trip Checklists) = 1 \<and> length (rows trip Tasks) = 2 \<and>
   length (rows one_written Checklists) = 2 \<and> length (rows one_written Tasks) = 4 \<and>
   length (rows both_written Checklists) = 3 \<and> length (rows both_written Tasks) = 6"
  by (simp add: one_checked_def both_checked_def one_written_def both_written_def
        respond_check_def respond_write_def accept_def db_select_single_def
        db_select_def db_call_def db_update_def db_insert_def advance_def fault_at_def field_def
        eq_def single_def Let_def stored_def sent_def nullish_def order_def asc_le_def
        newTaskData_def lookup_def accept_S_def trip_def request_S_def checklist_C_def
        task_Pack_def task_Shoes_def clone_tasks.simps split_beta)

subsection \<open>Failed inserts\<close>

lemma clone_tasks_take_Suc:
  assumes "j < length ts"
  shows "clone_tasks nc (take (Suc j) ts) m w =
           (case fault_at w j of
              Some e \<Rightarrow> (fst (clone_tasks nc (take j ts) m w),
                          advance (snd (clone_tasks nc (take j ts) m w)))
            | None \<Rightarrow>
                ((fst (clone_tasks nc (take j ts) m w))
                   (field (ts ! j) ''id'' \<mapsto>
                      field (stored Tasks (newTaskData nc (fst (clone_tasks nc (take j ts) m w)) (ts ! j))
                               (snd (clone_tasks nc (take j ts) m w))) ''id''),
                 inserted Tasks (newTaskData nc (fst (clone_tasks nc (take j ts) m w)) (ts ! j))
                   (snd (clone_tasks nc (take j ts) m w))))"
  using assms
  by (simp add: take_Suc_conv_app_nth clone_tasks_append clone_tasks_Cons split: option.splits)

lemma clone_tasks_failed_absent:
  "fault_at w j \<noteq> None \<Longrightarrow> distinct (map (\<lambda>t. field t ''id'') ts) \<Longrightarrow> j < length ts \<Longrightarrow>
   m (field (ts ! j) ''id'') = None \<Longrightarrow>
   fst (clone_tasks nc ts m w) (field (ts ! j) ''id'') = None"
proof (induction ts arbitrary: m w j)
  case Nil
  then show ?case by simp
next
  case (Cons t ts)
  show ?case
  proof (cases j)
    case 0
    with Cons.prems show ?thesis
      by (auto simp: clone_tasks_Cons clone_tasks_keeps)
  next
    case (Suc i)
    with Cons.prems have "ts ! i \<in> set ts" "field t ''id'' \<notin> (\<lambda>t. field t ''id'') ` set ts"
      by simp_all
    then have ne: "field (ts ! i) ''id'' \<noteq> field t ''id''"
      by (metis imageI)
    show ?thesis
    proof (cases "fault_at w 0")
      case None
      let ?m = "m(field t ''id'' \<mapsto> field (stored Tasks (newTaskData nc m t) w) ''id'')"
      have "fst (clone_tasks nc ts ?m (inserted Tasks (newTaskData nc m t) w))
              (field (ts ! i) ''id'') = None"
        using Suc Cons.prems ne by (intro Cons.IH) simp_all
      with None Suc show ?thesis
        by (simp add: clone_tasks_Cons)
    next
      case (Some e)
      have "fst (clone_tasks nc ts m (advance w)) (field (ts ! i) ''id'') = None"
        using Suc Cons.prems by (intro Cons.IH) simp_all
      with Some Suc show ?thesis
        by (simp add: clone_tasks_Cons)
    qed
  qed
qed


lemma clone_tasks_prefix_absent:
  assumes "distinct (map (\<lambda>t. field t ''id'') ts)" and "j < length ts"
    and "fault_at w j \<noteq> None" and "m (field (ts ! j) ''id'') = None"
  shows "fst (clone_tasks nc (take i ts) m w) (field (ts ! j) ''id'') = None"
proof (cases "j < i")
  case True
  have d: "distinct (map (\<lambda>t. field t ''id'') (take i ts))"
    using assms(1) by (simp add: distinct_take take_map [symmetric])
  have "fst (clone_tasks nc (take i ts) m w) (field (take i ts ! j) ''id'') = None"
    using True assms by (intro clone_tasks_failed_absent [OF _ d]) simp_all
  with True show ?thesis by simp
next
  case False
  have "field (ts ! j) ''id'' \<notin> (\<lambda>t. field t ''id'') ` set (take i ts)"
  proof
    assume "field (ts ! j) ''id'' \<in> (\<lambda>t. field t ''id'') ` set (take i ts)"
    then obtain n where n: "n < length (take i ts)" "field (take i ts ! n) ''id'' = field (ts ! j) ''id''"
      by (auto simp: in_set_conv_nth)
    with False have "n < length ts" "n \<noteq> j"
      "map (\<lambda>t. field t ''id'') ts ! n = map (\<lambda>t. field t ''id'') ts ! j"
      using assms(2) by simp_all
    with assms(1,2) show False
      by (simp add: nth_eq_iff_index_eq del: nth_map)
  qed
  then show ?thesis
    using assms(4) by (simp add: clone_tasks_keeps)
qed

lemma clone_tasks_orphan:
  assumes "k < length ts" and "fault_at w k = None"
    and "truthy (field (ts ! k) ''parent_id'')"
    and "fst (clone_tasks nc (take k ts) m w) (field (ts ! k) ''parent_id'') = None"
  shows "\<exists>r. rows (snd (clone_tasks nc (take (Suc k) ts) m w)) Tasks
               = rows (snd (clone_tasks nc (take k ts) m w)) Tasks @ [r] \<and>
             field r ''parent_id'' = Null"
  using assms
  by (simp add: clone_tasks_take_Suc stored_newTask_fields lookup_def)

text \<open>
  C2. In the clone loop over the tasks \<open>ts\<close>, let the insert of task \<open>j\<close> fail. Then the
  iteration leaves the mapping and the tables as it found them, and the task's id has
  no entry in the mapping at any point of the loop. A task whose insert is answered and
  whose parent has no entry in the mapping when the loop reaches it is inserted with
  \<open>parent_id\<close> null; this is so for every child of the failed task. The loop is a total
  function: nothing in it raises.
\<close>

theorem failed_insert_skipped:
  assumes "distinct (map (\<lambda>t. field t ''id'') ts)" and "j < length ts"
  shows "(fault_at w j \<noteq> None \<longrightarrow>
            fst (clone_tasks nc (take (Suc j) ts) Map.empty w)
              = fst (clone_tasks nc (take j ts) Map.empty w) \<and>
            rows (snd (clone_tasks nc (take (Suc j) ts) Map.empty w))
              = rows (snd (clone_tasks nc (take j ts) Map.empty w)) \<and>
            fst (clone_tasks nc ts Map.empty w) (field (ts ! j) ''id'') = None \<and>
            (\<forall>k<length ts.
               fault_at w k = None \<and> truthy (field (ts ! k) ''parent_id'') \<and>
               field (ts ! k) ''parent_id'' = field (ts ! j) ''id''
               \<longrightarrow> (\<exists>r. rows (snd (clone_tasks nc (take (Suc k) ts) Map.empty w)) Tasks
                           = rows (snd (clone_tasks nc (take k ts) Map.empty w)) Tasks @ [r] \<and>
                         field r ''parent_id'' = Null))) \<and>
         (fault_at w j = None \<and> truthy (field (ts ! j) ''parent_id'') \<and>
          fst (clone_tasks nc (take j ts) Map.empty w) (field (ts ! j) ''parent_id'') = None
          \<longrightarrow> (\<exists>r. rows (snd (clone_tasks nc (take (Suc j) ts) Map.empty w)) Tasks
                      = rows (snd (clone_tasks nc (take j ts) Map.empty w)) Tasks @ [r] \<and>
                    field r ''parent_id'' = Null))"
proof -
  have skip: "fst (clone_tasks nc (take (Suc j) ts) Map.empty w)
                = fst (clone_tasks nc (take j ts) Map.empty w) \<and>
              rows (snd (clone_tasks nc (take (Suc j) ts) Map.empty w))
                = rows (snd (clone_tasks nc (take j ts) Map.empty w))"
    if "fault_at w j \<noteq> None"
    using that assms(2) by (auto simp: clone_tasks_take_Suc)
  have absent: "fst (clone_tasks nc (take i ts) Map.empty w) (field (ts ! j) ''id'') = None"
    if "fault_at w j \<noteq> None" for i
    using assms that by (intro clone_tasks_prefix_absent) simp_all
  have child: "\<exists>r. rows (snd (clone_tasks nc (take (Suc k) ts) Map.empty w)) Tasks
                     = rows (snd (clone_tasks nc (take k ts) Map.empty w)) Tasks @ [r] \<and>
                   field r ''parent_id'' = Null"
    if "fault_at w j \<noteq> None" "k < length ts" "fault_at w k = None"
      "truthy (field (ts ! k) ''parent_id'')"
      "field (ts ! k) ''parent_id'' = field (ts ! j) ''id''" for k
    using that absent [of k] by (intro clone_tasks_orphan) simp_all
  have orphan: "\<exists>r. rows (snd (clone_tasks nc (take (Suc j) ts) Map.empty w)) Tasks
                      = rows (snd (clone_tasks nc (take j ts) Map.empty w)) Tasks @ [r] \<and>
                    field r ''parent_id'' = Null"
    if "fault_at w j = None" "truthy (field (ts ! j) ''parent_id'')"
      "fst (clone_tasks nc (take j ts) Map.empty w) (field (ts ! j) ''parent_id'') = None"
    using that assms(2) by (intro clone_tasks_orphan)
  have final: "fst (clone_tasks nc ts Map.empty w) (field (ts ! j) ''id'') = None"
    if "fault_at w j \<noteq> None"
    using absent [OF that, of "length ts"] by simp
  show ?thesis
    using skip final child orphan by blast
qed

theorem failed_insert_skipped_witness:
  "fst (clone_tasks checklist_C [task_Pack, task_Shoes] Map.empty broken) (Str ''T1'') = None \<and>
   rows (snd (clone_tasks checklist_C [task_Pack] Map.empty broken)) = rows broken \<and>
   (\<exists>r. rows (snd (clone_tasks checklist_C [task_Pack, task_Shoes] Map.empty broken)) Tasks
           = rows (snd (clone_tasks checklist_C [task_Pack] Map.empty broken)) Tasks @ [r] \<and>
         field r ''parent_id'' = Null)"
proof -
  have d: "distinct (map (\<lambda>t. field t ''id'') [task_Pack, task_Shoes])"
    "0 < length [task_Pack, task_Shoes]"
    by (simp_all add: task_Pack_def task_Shoes_def field_def)
  have f: "fault_at broken 0 \<noteq> None" "fault_at broken 1 = None"
    by (simp_all add: broken_def fault_at_def)
  have t: "field task_Pack ''id'' = Str ''T1''"
    "truthy (field task_Shoes ''parent_id'')" "field task_Shoes ''parent_id'' = Str ''T1''"
    by (simp_all add: task_Pack_def task_Shoes_def field_def)
  have k: "(1::nat) < length [task_Pack, task_Shoes]"
    "field ([task_Pack, task_Shoes] ! 1) ''parent_id'' = field ([task_Pack, task_Shoes] ! 0) ''id''"
    "truthy (field ([task_Pack, task_Shoes] ! 1) ''parent_id'')"
    by (simp_all add: t)
  from failed_insert_skipped [OF d, of broken checklist_C] f(1)
  have all: "rows (snd (clone_tasks checklist_C (take (Suc 0) [task_Pack, task_Shoes]) Map.empty broken))
              = rows (snd (clone_tasks checklist_C (take 0 [task_Pack, task_Shoes]) Map.empty broken))"
    "fst (clone_tasks checklist_C [task_Pack, task_Shoes] Map.empty broken)
       (field ([task_Pack, task_Shoes] ! 0) ''id'') = None"
    "\<forall>k<length [task_Pack, task_Shoes].
               fault_at broken k = None \<and> truthy (field ([task_Pack, task_Shoes] ! k) ''parent_id'') \<and>
               field ([task_Pack, task_Shoes] ! k) ''parent_id'' = field ([task_Pack, task_Shoes] ! 0) ''id''
               \<longrightarrow> (\<exists>r. rows (snd (clone_tasks checklist_C (take (Suc k) [task_Pack, task_Shoes]) Map.empty broken)) Tasks
                           = rows (snd (clone_tasks checklist_C (take k [task_Pack, task_Shoes]) Map.empty broken)) Tasks @ [r] \<and>
                         field r ''parent_id'' = Null)"
    by blast+
  from all(3) [rule_format, OF k(1)] f(2) k(2,3)
  have "\<exists>r. rows (snd (clone_tasks checklist_C (take (Suc 1) [task_Pack, task_Shoes]) Map.empty broken)) Tasks
                           = rows (snd (clone_tasks checklist_C (take 1 [task_Pack, task_Shoes]) Map.empty broken)) Tasks @ [r] \<and>
                         field r ''parent_id'' = Null"
    by blast
  with all(1,2) show ?thesis
    by (simp add: t)
qed

subsection \<open>Updating a task\<close>

lemma map_of_assign: "map_of (assign k v ob) = (map_of ob)(k \<mapsto> v)"
  by (induction ob) auto

lemma map_fst_assign:
  "map fst (assign k v ob) = (if k \<in> fst ` set ob then map fst ob else map fst ob @ [k])"
  by (induction ob) (force split: if_splits)+

lemma distinct_assign: "distinct (map fst ob) \<Longrightarrow> distinct (map fst (assign k v ob))"
  by (simp add: map_fst_assign)

lemma set_assign: "set (assign k v ob) \<subseteq> insert (k, v) (set ob)"
  by (induction ob) (auto split: if_splits)

lemma snd_set_assign: "snd ` set (assign k v ob) \<subseteq> insert v (snd ` set ob)"
  using set_assign [of k v ob] by force

lemma field_overlay:
  "distinct (map fst kvs) \<Longrightarrow>
   field (overlay kvs r) k = (case map_of kvs k of None \<Rightarrow> field r k | Some v \<Rightarrow> nullish v)"
proof (induction kvs arbitrary: r)
  case Nil
  then show ?case by simp
next
  case (Cons kv kvs)
  obtain k' v where kv: "kv = (k', v)" by (cases kv)
  from Cons.prems kv have d: "distinct (map fst kvs)" "k' \<notin> fst ` set kvs"
    by simp_all
  show ?case
  proof (cases "map_of kvs k")
    case None
    with Cons.IH [OF d(1), of "assign k' (nullish v) r"] kv show ?thesis
      by simp
  next
    case (Some v')
    then have "k \<in> fst ` set kvs"
      by (metis domI dom_map_of_conv_image_fst)
    with d(2) have "k \<noteq> k'" by auto
    with Some Cons.IH [OF d(1), of "assign k' (nullish v) r"] kv show ?thesis
      by simp
  qed
qed

lemma foldl_set_if_defined:
  "map_of (foldl (set_if_defined b) u ks) k =
     (if k \<in> set ks \<and> field b k \<noteq> Undefined then Some (field b k) else map_of u k)"
  by (induction ks arbitrary: u) (auto simp: set_if_defined_def map_of_assign)

lemma foldl_set_if_defined_distinct:
  "distinct (map fst u) \<Longrightarrow> distinct (map fst (foldl (set_if_defined b) u ks))"
  by (induction ks arbitrary: u) (auto simp: set_if_defined_def distinct_assign)

lemma foldl_set_if_defined_values:
  "Undefined \<notin> snd ` set u \<Longrightarrow> Undefined \<notin> snd ` set (foldl (set_if_defined b) u ks)"
proof (induction ks arbitrary: u)
  case Nil
  then show ?case by simp
next
  case (Cons k ks)
  have "Undefined \<notin> snd ` set (set_if_defined b u k)"
    using Cons.prems snd_set_assign [of k "field b k" u]
    by (auto simp: set_if_defined_def)
  then show ?case
    using Cons.IH by simp
qed

lemma sent_task_updates: "sent (task_updates b) = task_updates b"
proof -
  have "Undefined \<notin> snd ` set (task_updates b)"
    unfolding task_updates_def by (rule foldl_set_if_defined_values) simp
  then have "\<forall>x\<in>set (task_updates b). (case x of (k, v) \<Rightarrow> v \<noteq> Undefined)"
    by force
  then show ?thesis
    unfolding sent_def by (simp only: filter_True)
qed

lemma field_task_updates:
  "field (overlay (sent (task_updates b)) t) k =
     (if k \<in> set updatable \<and> field b k \<noteq> Undefined then field b k else field t k)"
proof -
  have d: "distinct (map fst (task_updates b))"
    unfolding task_updates_def by (rule foldl_set_if_defined_distinct) simp
  show ?thesis
    unfolding sent_task_updates field_overlay [OF d]
    by (simp add: task_updates_def foldl_set_if_defined nullish_def)
qed

lemma db_update_single_eq:
  "db_update_single t ob p w =
     (case fault_at w 0 of
        Some e \<Rightarrow> (Inl e, advance w)
      | None \<Rightarrow>
          (case single (filter p (rows w t)) of
             Inl e \<Rightarrow> (Inl e, advance w)
           | Inr r \<Rightarrow> (Inr (overlay (sent ob) r), updated t ob p w)))"
  by (simp add: db_update_single_def db_call_def updated_def split: option.splits sum.splits)

text \<open>
  C9, as amended. A task update writes those of the seven names \<open>title\<close>, \<open>description\<close>,
  \<open>is_completed\<close>, \<open>order_num\<close>, \<open>start_time\<close>, \<open>end_time\<close> and \<open>allocated_time\<close> that
  the request body has, with the value the body gives; every other column of the task
  keeps its value, whether the body names it or not, and so does every other row.
\<close>

theorem task_update_is_partial:
  assumes "fault_at w 0 = None"
    and "filter (eq ''id'' (Str (params_id req))) (rows w Tasks) = [t]"
  shows "\<exists>t'. fst (put_tasks_id req w) = json 200 (Obj t') \<and>
              rows (snd (put_tasks_id req w)) Tasks
                = map (\<lambda>r. if eq ''id'' (Str (params_id req)) r then t' else r) (rows w Tasks) \<and>
              (\<forall>k. field t' k =
                     (if k \<in> set updatable \<and> field (body req) k \<noteq> Undefined
                      then field (body req) k else field t k)) \<and>
              (\<forall>x. x \<noteq> Tasks \<longrightarrow> rows (snd (put_tasks_id req w)) x = rows w x)"
proof -
  let ?t' = "overlay (sent (task_updates (body req))) t"
  have same: "map (\<lambda>r. if eq ''id'' (Str (params_id req)) r
                        then overlay (sent (task_updates (body req))) r else r) (rows w Tasks)
              = map (\<lambda>r. if eq ''id'' (Str (params_id req)) r then ?t' else r) (rows w Tasks)"
  proof (rule map_cong [OF refl])
    fix r assume "r \<in> set (rows w Tasks)"
    moreover have "set (filter (eq ''id'' (Str (params_id req))) (rows w Tasks)) = {t}"
      using assms(2) by simp
    ultimately have "eq ''id'' (Str (params_id req)) r \<Longrightarrow> r = t"
      by auto
    then show "(if eq ''id'' (Str (params_id req)) r
                then overlay (sent (task_updates (body req))) r else r)
             = (if eq ''id'' (Str (params_id req)) r then ?t' else r)"
      by auto
  qed
  have "fst (put_tasks_id req w) = json 200 (Obj ?t')"
    "rows (snd (put_tasks_id req w)) Tasks
       = map (\<lambda>r. if eq ''id'' (Str (params_id req)) r then ?t' else r) (rows w Tasks)"
    "\<forall>x. x \<noteq> Tasks \<longrightarrow> rows (snd (put_tasks_id req w)) x = rows w x"
    using assms same by (simp_all add: put_tasks_id_def db_update_single_eq single_def Let_def)
  then show ?thesis
    using field_task_updates [of "body req" t] by blast
qed


theorem task_update_is_partial_witness:
  "\<exists>t'. fst (put_tasks_id retitle_T2 trip) = json 200 (Obj t') \<and>
        field t' ''title'' = Str ''Boots'' \<and> field t' ''parent_id'' = Str ''T1'' \<and>
        field t' ''order_num'' = Num 2"
proof -
  have f: "fault_at trip 0 = None"
    using trip_facts(8) by simp
  have q: "filter (eq ''id'' (Str (params_id retitle_T2))) (rows trip Tasks) = [task_Shoes]"
    by (simp add: retitle_T2_def trip_def task_Pack_def task_Shoes_def eq_def field_def)
  from task_update_is_partial [OF f q] obtain t' where
    t: "fst (put_tasks_id retitle_T2 trip) = json 200 (Obj t')"
      "\<And>k. field t' k =
                     (if k \<in> set updatable \<and> field (body retitle_T2) k \<noteq> Undefined
                      then field (body retitle_T2) k else field task_Shoes k)"
    by blast
  have "field t' ''title'' = Str ''Boots''" "field t' ''parent_id'' = Str ''T1''"
    "field t' ''order_num'' = Num 2"
    unfolding t(2) by (simp_all add: updatable_def retitle_T2_def task_Shoes_def field_def)
  with t(1) show ?thesis by blast
qed

text \<open>
  C9 as the specification states it fails: the body below has the field \<open>parent_id\<close>,
  and the update writes the title it names but leaves the parent of the task as it was.
\<close>

theorem task_update_counterexample:
  "field (body retitle_T2) ''parent_id'' = Str ''T9'' \<and>
   field (rows trip Tasks ! 1) ''parent_id'' = Str ''T1'' \<and>
   field (rows (snd (put_tasks_id retitle_T2 trip)) Tasks ! 1) ''title'' = Str ''Boots'' \<and>
   field (rows (snd (put_tasks_id retitle_T2 trip)) Tasks ! 1) ''parent_id'' = Str ''T1''"
  by (simp add: put_tasks_id_def db_update_single_def db_call_def advance_def fault_at_def
        retitle_T2_def trip_def task_Pack_def task_Shoes_def eq_def field_def single_def
        task_updates_def updatable_def set_if_defined_def sent_def nullish_def)

subsection \<open>Validation\<close>

lemma field_Nil [simp]: "field [] k = Undefined"
  by (simp add: field_def)

text \<open>
  C7, as amended. For each of the eight endpoints that check for required fields
  (profile creation, login, checklist creation and listing, checklist deletion, sending
  and answering a share request, adding a timer log), a request that lacks one of them
  is answered 400 and leaves the world as it was: no database call has been made.
\<close>

theorem missing_field_short_circuits:
  assumes "k \<in> set (required ep)" and "field (input ep req) k = Undefined"
  shows "map_option status (fst (handle bcrypt ep req w)) = Some 400 \<and>
         snd (handle bcrypt ep req w) = w"
  using assms
  by (cases ep)
     (auto simp: required_def input_def json_def Let_def
        post_profiles_def post_profiles_login_def post_checklists_def get_checklists_def
        delete_checklists_id_def post_checklists_id_share_def respond_def
        post_checklists_id_timer_logs_def)

theorem missing_field_short_circuits_witness:
  "map_option status (fst (handle toy_bcrypt PostProfiles nameless trip)) = Some 400 \<and>
   snd (handle toy_bcrypt PostProfiles nameless trip) = trip"
proof -
  have "''password'' \<in> set (required PostProfiles)"
    "field (input PostProfiles nameless) ''password'' = Undefined"
    by (simp_all add: required_def input_def nameless_def field_def)
  then show ?thesis
    by (rule missing_field_short_circuits)
qed

lemma post_tasks_always_calls:
  "calls (snd (post_tasks req w)) = Suc (calls w) \<and>
   map_option status (fst (post_tasks req w)) \<noteq> Some 400"
  by (auto simp: post_tasks_def db_insert_eq json_def Let_def split: option.splits)

text \<open>
  C7 as the specification states it fails for task creation: a request with an empty
  body, which lacks every field of a task, reaches the database and is answered 201.
\<close>

theorem task_creation_counterexample:
  "map_option status (fst (handle toy_bcrypt PostTasks empty_request trip)) = Some 201 \<and>
   calls trip = 0 \<and>
   calls (snd (handle toy_bcrypt PostTasks empty_request trip)) = 1 \<and>
   length (rows (snd (handle toy_bcrypt PostTasks empty_request trip)) Tasks) = 3"
  by (simp add: post_tasks_def db_insert_def db_call_def advance_def fault_at_def
        empty_request_def trip_def json_def Let_def)

subsection \<open>The password hash\<close>

lemma mentions_fields_iff:
  "mentions_fields k r \<longleftrightarrow> (\<exists>(k', v) \<in> set r. k' = k \<or> mentions k v)"
  by (induction r) auto

lemma mentions_list_iff:
  "mentions_list k xs \<longleftrightarrow> (\<exists>x \<in> set xs. mentions k x)"
  by (induction xs) auto

lemma pub_iff: "\<not> mentions_fields ''password_hash'' r \<longleftrightarrow> pub r"
  by (auto simp: mentions_fields_iff pub_def clean_def)

lemma priv_iff: "\<not> mentions_fields ''password_hash'' (without ''password_hash'' r) \<longleftrightarrow> priv r"
  by (auto simp: mentions_fields_iff priv_def clean_def without_def)

lemma pub_priv: "pub r \<Longrightarrow> priv r"
  by (auto simp: pub_def priv_def)

lemma clean_Obj [simp]: "clean (Obj r) = pub r"
  by (simp add: clean_def pub_iff [symmetric])

lemma clean_Arr [simp]: "clean (Arr xs) = (\<forall>x \<in> set xs. clean x)"
  by (simp add: clean_def mentions_list_iff)

lemma clean_simps [simp]:
  "clean Undefined" "clean Null" "clean (Bool b)" "clean (Num n)" "clean (Str s)"
  by (simp_all add: clean_def)

lemma clean_nullish [simp]: "clean (nullish v) = clean v"
  by (simp add: nullish_def)

lemma pub_Nil [simp]: "pub []" and priv_Nil [simp]: "priv []"
  by (simp_all add: pub_def priv_def)

lemma pub_Cons [simp]: "pub ((k, v) # r) \<longleftrightarrow> k \<noteq> ''password_hash'' \<and> clean v \<and> pub r"
  by (auto simp: pub_def)

lemma pub_append [simp]: "pub (r @ s) \<longleftrightarrow> pub r \<and> pub s"
  by (auto simp: pub_def)

lemma pub_without: "priv r \<Longrightarrow> pub (without ''password_hash'' r)"
  by (auto simp: pub_def priv_def without_def)

lemma pub_project: "priv r \<Longrightarrow> ''password_hash'' \<notin> set cols \<Longrightarrow> pub (project cols r)"
  by (auto simp: pub_def priv_def project_def)

lemma pub_project_pub: "pub r \<Longrightarrow> pub (project cols r)"
  by (auto simp: pub_def project_def)

lemma clean_field: "priv r \<Longrightarrow> k \<noteq> ''password_hash'' \<Longrightarrow> clean (field r k)"
  by (auto simp: priv_def field_def dest!: map_of_SomeD split: option.splits)

lemma pub_assign: "pub r \<Longrightarrow> k \<noteq> ''password_hash'' \<Longrightarrow> clean v \<Longrightarrow> pub (assign k v r)"
  using set_assign [of k v r] by (auto simp: pub_def)

lemma priv_assign: "priv r \<Longrightarrow> k \<noteq> ''password_hash'' \<longrightarrow> clean v \<Longrightarrow> priv (assign k v r)"
  using set_assign [of k v r] by (auto simp: priv_def)

lemma pub_overlay:
  "pub r \<Longrightarrow> pub kvs \<Longrightarrow> pub (overlay kvs r)"
  by (induction kvs arbitrary: r) (auto simp: pub_assign)

lemma priv_overlay:
  "priv r \<Longrightarrow> priv kvs \<Longrightarrow> priv (overlay kvs r)"
proof (induction kvs arbitrary: r)
  case Nil
  then show ?case by simp
next
  case (Cons kv kvs)
  obtain k v where kv: "kv = (k, v)" by (cases kv)
  from Cons.prems kv have "priv kvs" "k \<noteq> ''password_hash'' \<longrightarrow> clean v"
    by (auto simp: priv_def)
  with Cons.IH [of "assign k (nullish v) r"] Cons.prems(1) kv show ?case
    by (simp add: priv_assign)
qed

lemma pub_sent: "pub r \<Longrightarrow> pub (sent r)"
  by (auto simp: pub_def sent_def)

lemma priv_sent: "priv r \<Longrightarrow> priv (sent r)"
  by (auto simp: priv_def sent_def)

lemma pub_stored:
  "pub (defaults w t) \<Longrightarrow> pub ob \<Longrightarrow> pub (stored t ob w)"
  by (simp add: stored_def pub_overlay pub_assign)

lemma priv_stored:
  "priv (defaults w t) \<Longrightarrow> priv ob \<Longrightarrow> priv (stored t ob w)"
  by (simp add: stored_def priv_overlay priv_assign)

lemma confined_iff:
  "confined w \<longleftrightarrow>
     (\<forall>r \<in> set (rows w Profiles). priv r) \<and>
     (\<forall>t. t \<noteq> Profiles \<longrightarrow> (\<forall>r \<in> set (rows w t). pub r)) \<and>
     priv (defaults w Profiles) \<and>
     (\<forall>t. t \<noteq> Profiles \<longrightarrow> pub (defaults w t))"
proof -
  have t: "t \<noteq> Profiles \<longleftrightarrow> t \<in> {Checklists, Tasks, ShareRequests, TimerLogs}" for t
    by (cases t) simp_all
  have p: "pub (without ''password_hash'' r) \<longleftrightarrow> priv r" for r
    by (auto simp: pub_def priv_def without_def)
  show ?thesis
    unfolding confined_def pub_iff p t by blast
qed

lemma clean_map_of: "\<forall>v \<in> snd ` set ob. \<not> mentions ''password_hash'' v \<Longrightarrow> clean (field ob k)"
proof (cases "map_of ob k")
  case None
  then show ?thesis by (simp add: field_def)
next
  case (Some v)
  assume a: "\<forall>v \<in> snd ` set ob. \<not> mentions ''password_hash'' v"
  from Some have "(k, v) \<in> set ob" by (rule map_of_SomeD)
  then have "v \<in> snd ` set ob" by force
  with a have "\<not> mentions ''password_hash'' v" by blast
  with Some show ?thesis by (simp add: field_def clean_def)
qed

lemma plain_field:
  "plain req \<Longrightarrow> clean (field (body req) k)" "plain req \<Longrightarrow> clean (field (query req) k)"
  by (simp_all add: plain_def clean_map_of)


lemma safe_simps [simp]:
  "safe (json s v) = clean v" "safe (send s)" "safe None"
  by (simp_all add: safe_def json_def send_def)

lemma clean_error_body [simp]: "clean (error_body msg)"
  by (simp add: error_body_def)

lemma single_mem: "single rs = Inr r \<Longrightarrow> r \<in> set rs"
  by (auto simp: single_def split: list.splits)

lemma confined_rows:
  assumes "confined w"
  shows "\<And>r. r \<in> set (rows w Profiles) \<Longrightarrow> priv r"
    "\<And>r. r \<in> set (rows w Checklists) \<Longrightarrow> pub r"
    "\<And>r. r \<in> set (rows w Tasks) \<Longrightarrow> pub r"
    "\<And>r. r \<in> set (rows w ShareRequests) \<Longrightarrow> pub r"
    "\<And>r. r \<in> set (rows w TimerLogs) \<Longrightarrow> pub r"
    "priv (defaults w Profiles)" "pub (defaults w Checklists)" "pub (defaults w Tasks)"
    "pub (defaults w ShareRequests)" "pub (defaults w TimerLogs)"
  using assms by (auto simp: confined_iff)

lemma public_columns_hash [simp]: "''password_hash'' \<notin> set public_columns"
  by (simp add: public_columns_def)

lemma safe_post_profiles:
  assumes "confined w" and "plain req"
  shows "safe (fst (post_profiles bcrypt req w))"
proof -
  have "priv [(''name'', field (body req) ''name''), (''password_hash'', Str h),
              (''avatar_url'', field (body req) ''avatar_url'')]" for h
    using assms(2) by (simp add: priv_def plain_field)
  then have "priv (stored Profiles [(''name'', field (body req) ''name''), (''password_hash'', Str h),
                               (''avatar_url'', field (body req) ''avatar_url'')] w)" for h
    using confined_rows(6) [OF assms(1)] by (intro priv_stored)
  then show ?thesis
    by (auto simp: post_profiles_def db_insert_eq Let_def pub_project
          split: sum.splits option.splits)
qed

lemma safe_get_profiles:
  assumes "confined w"
  shows "safe (fst (get_profiles req w))"
  using confined_rows [OF assms]
  by (auto simp: get_profiles_def db_select_eq pub_project split: option.splits)

lemma safe_post_profiles_login:
  assumes "confined w"
  shows "safe (fst (post_profiles_login bcrypt req w))"
  using confined_rows [OF assms]
  by (auto simp: post_profiles_login_def db_select_single_eq Let_def pub_without
        dest!: single_mem split: sum.splits option.splits)

lemma safe_put_profiles_id:
  assumes "confined w" and "plain req"
  shows "safe (fst (put_profiles_id bcrypt req w))"
proof -
  have out: "pub (project public_columns (overlay (sent ob) r))"
    if "priv ob" "r \<in> set (rows w Profiles)" for ob r
  proof -
    have "priv (overlay (sent ob) r)"
      using that confined_rows(1) [OF assms(1)] by (intro priv_overlay priv_sent) simp_all
    then show ?thesis
      by (rule pub_project) simp
  qed
  have u: "priv (assign ''avatar_url'' (field (body req) ''avatar_url'') [])"
    "priv (assign ''name'' (field (body req) ''name'') [])"
    "priv (assign ''avatar_url'' (field (body req) ''avatar_url'')
             (assign ''name'' (field (body req) ''name'') []))"
    using assms(2) by (simp_all add: priv_def plain_field)
  have h: "priv ob \<Longrightarrow> priv (assign ''password_hash'' v ob)" for ob v
    by (rule priv_assign) simp_all
  note facts = out [OF u(1)] out [OF u(2)] out [OF u(3)] out [OF h [OF u(1)]]
    out [OF h [OF u(2)]] out [OF h [OF u(3)]] out [OF priv_Nil] out [OF h [OF priv_Nil]]
  show ?thesis
    using facts
    by (auto simp: put_profiles_id_def db_update_single_eq Let_def
          dest!: single_mem split: sum.splits option.splits if_splits)
qed

lemma safe_delete_profiles_id: "safe (fst (delete_profiles_id req w))"
  by (auto simp: delete_profiles_id_def db_delete_def db_call_def split: option.splits)

lemma safe_post_checklists:
  assumes "confined w" and "plain req"
  shows "safe (fst (post_checklists req w))"
proof -
  have "pub (stored Checklists [(''profile_id'', field (body req) ''profile_id''),
                                (''title'', field (body req) ''title'')] w)"
    using assms by (intro pub_stored) (simp_all add: confined_rows plain_field)
  then show ?thesis
    by (auto simp: post_checklists_def db_insert_eq Let_def split: option.splits)
qed

lemma safe_get_checklists:
  assumes "confined w"
  shows "safe (fst (get_checklists req w))"
  using confined_rows [OF assms]
  by (auto simp: get_checklists_def db_select_eq Let_def split: option.splits)

lemma safe_get_checklists_id:
  assumes "confined w"
  shows "safe (fst (get_checklists_id req w))"
  using confined_rows [OF assms]
  by (auto simp: get_checklists_id_def db_select_single_eq
        dest!: single_mem split: sum.splits option.splits)

lemma safe_put_checklists_id:
  assumes "confined w" and "plain req"
  shows "safe (fst (put_checklists_id req w))"
proof -
  have "pub (overlay (sent [(''title'', field (body req) ''title'')]) r)"
    if "r \<in> set (rows w Checklists)" for r
    using that assms by (intro pub_overlay pub_sent) (simp_all add: confined_rows plain_field)
  then show ?thesis
    by (auto simp: put_checklists_id_def db_update_single_eq Let_def
          dest!: single_mem split: sum.splits option.splits)
qed

lemma safe_delete_checklists_id: "safe (fst (delete_checklists_id bcrypt req w))"
  by (auto simp: delete_checklists_id_def db_select_single_eq db_delete_def db_call_def Let_def
        split: sum.splits option.splits)

lemma safe_post_checklists_id_share:
  assumes "confined w" and "plain req"
  shows "safe (fst (post_checklists_id_share req w))"
proof -
  have "pub (stored ShareRequests [(''checklist_id'', Str (params_id req)),
                (''sender_id'', field (body req) ''sender_id''),
                (''receiver_id'', field (project [''id''] r) ''id'')] w')"
    if "r \<in> set (rows w Profiles)" "defaults w' = defaults w" for r w'
  proof -
    have "pub (project [''id''] r)"
      using confined_rows(1) [OF assms(1) that(1)] by (rule pub_project) simp
    then have "priv (project [''id''] r)"
      by (rule pub_priv)
    then have "clean (field (project [''id''] r) ''id'')"
      by (rule clean_field) simp
    then show ?thesis
      using assms that(2) confined_rows(9) [OF assms(1)]
      by (intro pub_stored) (simp_all add: plain_field)
  qed
  then show ?thesis
    by (auto simp: post_checklists_id_share_def db_select_single_eq db_insert_eq Let_def
          dest!: single_mem split: sum.splits option.splits)
qed

lemma clean_embed:
  assumes "confined w" and "''password_hash'' \<notin> set cols"
  shows "clean (embed_row w t cols v)"
proof -
  have "pub (project cols r)" if "r \<in> set (rows w t)" for r
    using that assms(2) confined_rows(1-5) [OF assms(1)]
    by (cases t) (auto intro: pub_project pub_project_pub)
  moreover have "r \<in> set (rows w t)" if "filter (eq ''id'' v) (rows w t) = r # rs" for r rs
  proof -
    have "r \<in> set (filter (eq ''id'' v) (rows w t))"
      unfolding that by simp
    then show ?thesis by simp
  qed
  ultimately show ?thesis
    by (auto simp: embed_row_def split: list.splits)
qed

lemma safe_get_profiles_id_share_requests:
  assumes "confined w"
  shows "safe (fst (get_profiles_id_share_requests req w))"
proof -
  have c: "confined (advance w)"
    using assms by (simp add: confined_iff)
  show ?thesis
    using confined_rows [OF assms]
    by (auto simp: get_profiles_id_share_requests_def db_select_eq clean_embed [OF c]
          pub_project_pub split: option.splits)
qed

lemma safe_accept: "safe (fst (accept rq w))"
  by (auto simp: accept_def db_select_single_eq db_insert_eq db_select_eq split_beta Let_def
        split: sum.splits option.splits)

lemma safe_respond: "safe (fst (respond req w))"
  by (auto simp: respond_def db_select_single_eq db_update_eq safe_accept Let_def
        split: sum.splits option.splits)

lemma safe_post_checklists_id_timer_logs:
  assumes "confined w" and "plain req"
  shows "safe (fst (post_checklists_id_timer_logs req w))"
proof -
  have "pub (stored TimerLogs [(''checklist_id'', Str (params_id req)),
                (''elapsed_seconds'', field (body req) ''elapsed_seconds'')] w)"
    using assms by (intro pub_stored) (simp_all add: confined_rows plain_field)
  then show ?thesis
    by (auto simp: post_checklists_id_timer_logs_def db_insert_eq Let_def split: option.splits)
qed

lemma safe_get_checklists_id_timer_logs:
  assumes "confined w"
  shows "safe (fst (get_checklists_id_timer_logs req w))"
  using confined_rows [OF assms]
  by (auto simp: get_checklists_id_timer_logs_def db_select_eq split: option.splits)

lemma safe_post_tasks:
  assumes "confined w" and "plain req"
  shows "safe (fst (post_tasks req w))"
proof -
  have "pub (stored Tasks ob w)" if "pub ob" for ob
    using assms that by (intro pub_stored) (simp_all add: confined_rows)
  then show ?thesis
    using assms(2)
    by (auto simp: post_tasks_def db_insert_eq Let_def plain_field split: option.splits)
qed

lemma safe_get_checklists_id_tasks:
  assumes "confined w"
  shows "safe (fst (get_checklists_id_tasks req w))"
  using confined_rows [OF assms]
  by (auto simp: get_checklists_id_tasks_def db_select_eq split: option.splits)

lemma pub_foldl_set_if_defined:
  "plain req \<Longrightarrow> ''password_hash'' \<notin> set ks \<Longrightarrow> pub u \<Longrightarrow>
   pub (foldl (set_if_defined (body req)) u ks)"
  by (induction ks arbitrary: u) (auto simp: set_if_defined_def pub_assign plain_field)

lemma safe_put_tasks_id:
  assumes "confined w" and "plain req"
  shows "safe (fst (put_tasks_id req w))"
proof -
  have "pub (task_updates (body req))"
    unfolding task_updates_def using assms(2)
    by (rule pub_foldl_set_if_defined) (simp_all add: updatable_def)
  then have "pub (overlay (sent (task_updates (body req))) r)" if "r \<in> set (rows w Tasks)" for r
    using that assms(1) by (intro pub_overlay pub_sent) (simp_all add: confined_rows)
  then show ?thesis
    by (auto simp: put_tasks_id_def db_update_single_eq Let_def
          dest!: single_mem split: sum.splits option.splits)
qed

lemma safe_delete_tasks_id: "safe (fst (delete_tasks_id req w))"
  by (auto simp: delete_tasks_id_def db_delete_def db_call_def split: option.splits)

lemma safe_handle:
  assumes "confined w" and "plain req"
  shows "safe (fst (handle bcrypt ep req w))"
  using assms
  by (cases ep)
     (simp_all add: safe_post_profiles safe_get_profiles safe_post_profiles_login
        safe_put_profiles_id safe_delete_profiles_id safe_post_checklists safe_get_checklists
        safe_get_checklists_id safe_put_checklists_id safe_delete_checklists_id
        safe_post_checklists_id_share safe_get_profiles_id_share_requests safe_respond
        safe_post_checklists_id_timer_logs safe_get_checklists_id_timer_logs safe_post_tasks
        safe_get_checklists_id_tasks safe_put_tasks_id safe_delete_tasks_id)


text \<open>
  C6, as amended. A login without a password, or with the empty string for one, is
  answered 400. A login that names an existing profile and gives a password that is a
  non-empty string and that bcrypt finds not to match the stored hash is answered 401.
  And no endpoint ever answers with a body that has a
  \<open>password_hash\<close> property, at any depth: the routes on profiles select the public
  columns or drop the hash, and the other routes never read it (the hash being a column
  of \<open>profiles\<close> only, and no stored or submitted value being an object with a property
  of that name).
\<close>

theorem wrong_password_and_hash:
  "(\<not> truthy (field (body req) ''password'')
    \<longrightarrow> fst (handle bcrypt PostProfilesLogin req w)
          = json 400 (error_body ''Profile ID and password required'')) \<and>
   (truthy (field (body req) ''profile_id'') \<and>
    field (body req) ''password'' = Str s \<and> s \<noteq> [] \<and>
    fault_at w 0 = None \<and>
    filter (eq ''id'' (field (body req) ''profile_id'')) (rows w Profiles) = [profile] \<and>
    field profile ''password_hash'' = Str h \<and>
    bcrypt_compare bcrypt (Str s) (Str h) = Some False
    \<longrightarrow> fst (handle bcrypt PostProfilesLogin req w) = json 401 (error_body ''Invalid password'')) \<and>
   (confined w \<and> plain req \<and> fst (handle bcrypt ep req w) = Some r
    \<longrightarrow> \<not> mentions ''password_hash'' (payload r))"
proof -
  have "fst (post_profiles_login bcrypt req w)
          = json 400 (error_body ''Profile ID and password required'')"
    if "\<not> truthy (field (body req) ''password'')"
    using that by (simp add: post_profiles_login_def)
  moreover
  have "fst (post_profiles_login bcrypt req w) = json 401 (error_body ''Invalid password'')"
    if "truthy (field (body req) ''profile_id'')" "field (body req) ''password'' = Str s" "s \<noteq> []"
      "fault_at w 0 = None"
      "filter (eq ''id'' (field (body req) ''profile_id'')) (rows w Profiles) = [profile]"
      "field profile ''password_hash'' = Str h"
      "bcrypt_compare bcrypt (Str s) (Str h) = Some False"
    using that by (simp add: post_profiles_login_def db_select_single_eq single_def)
  moreover have "\<not> mentions ''password_hash'' (payload r)"
    if "confined w" "plain req" "fst (handle bcrypt ep req w) = Some r"
    using safe_handle [OF that(1,2), of bcrypt ep] that(3) by (simp add: safe_def clean_def)
  ultimately show ?thesis
    by simp
qed

theorem wrong_password_and_hash_witness:
  "fst (handle toy_bcrypt PostProfilesLogin login_empty trip)
     = json 400 (error_body ''Profile ID and password required'') \<and>
   fst (handle toy_bcrypt PostProfilesLogin login_wrong trip)
     = json 401 (error_body ''Invalid password'') \<and>
   fst (handle toy_bcrypt PostProfilesLogin login_right trip)
     = json 200 (Obj [(''id'', Str ''A''), (''name'', Str ''ann''), (''avatar_url'', Null),
                      (''created_at'', Num 1)]) \<and>
   \<not> mentions ''password_hash''
       (Obj [(''id'', Str ''A''), (''name'', Str ''ann''), (''avatar_url'', Null),
             (''created_at'', Num 1)])"
proof -
  have e: "\<not> truthy (field (body login_empty) ''password'')"
    by (simp add: login_empty_def field_def)
  have a: "truthy (field (body login_wrong) ''profile_id'')"
    "field (body login_wrong) ''password'' = Str ''guess''" "''guess'' \<noteq> []"
    "fault_at trip 0 = None"
    "filter (eq ''id'' (field (body login_wrong) ''profile_id'')) (rows trip Profiles) = [profile_A]"
    "field profile_A ''password_hash'' = Str ''$2a$secret''"
    "bcrypt_compare toy_bcrypt (Str ''guess'') (Str ''$2a$secret'') = Some False"
    by (simp_all add: login_wrong_def trip_def profile_A_def profile_B_def toy_bcrypt_def
          field_def eq_def fault_at_def)
  have b: "confined trip" "plain login_right"
    by (simp_all add: confined_def plain_def trip_def login_right_def without_def
          profile_A_def profile_B_def request_S_def checklist_C_def task_Pack_def task_Shoes_def)
  have c: "fst (handle toy_bcrypt PostProfilesLogin login_right trip)
     = json 200 (Obj [(''id'', Str ''A''), (''name'', Str ''ann''), (''avatar_url'', Null),
                      (''created_at'', Num 1)])"
    by (simp add: post_profiles_login_def db_select_single_def db_select_def db_call_def
          login_right_def trip_def profile_A_def profile_B_def toy_bcrypt_def field_def eq_def
          fault_at_def single_def without_def Let_def)
  from wrong_password_and_hash [where req = login_empty and w = trip and bcrypt = toy_bcrypt] e
  have zero: "fst (handle toy_bcrypt PostProfilesLogin login_empty trip)
     = json 400 (error_body ''Profile ID and password required'')"
    by blast
  from wrong_password_and_hash
         [where req = login_wrong and w = trip and profile = profile_A and bcrypt = toy_bcrypt
            and s = "''guess''" and h = "''$2a$secret''"] a
  have one: "fst (handle toy_bcrypt PostProfilesLogin login_wrong trip)
     = json 401 (error_body ''Invalid password'')"
    by blast
  from wrong_password_and_hash
         [where req = login_right and w = trip and bcrypt = toy_bcrypt
            and ep = PostProfilesLogin
            and r = "\<lparr>status = 200, payload = Obj [(''id'', Str ''A''), (''name'', Str ''ann''),
               (''avatar_url'', Null), (''created_at'', Num 1)]\<rparr>"] b c
  have two: "\<not> mentions ''password_hash''
       (Obj [(''id'', Str ''A''), (''name'', Str ''ann''), (''avatar_url'', Null),
             (''created_at'', Num 1)])"
    by (simp add: json_def)
  show ?thesis
    using zero one c two by blast
qed

text \<open>
  C6 as the specification states it fails in its first part: profile A exists, the empty
  string is not its password (bcrypt finds no match), and the login is answered 400, not
  401. A password that is a number is not its password either, and the login is not
  answered at all: \<open>bcrypt.compare\<close> refuses what is not a string, outside any \<open>try\<close>.
\<close>

theorem wrong_password_counterexample:
  "filter (eq ''id'' (field (body login_empty) ''profile_id'')) (rows trip Profiles) = [profile_A] \<and>
   field (body login_empty) ''password'' = Str [] \<and>
   bcrypt_compare toy_bcrypt (Str []) (field profile_A ''password_hash'') = Some False \<and>
   fst (handle toy_bcrypt PostProfilesLogin login_empty trip)
     = json 400 (error_body ''Profile ID and password required'') \<and>
   field (body login_number) ''password'' = Num 12345 \<and>
   fst (handle toy_bcrypt PostProfilesLogin login_number trip) = None"
  by (simp add: post_profiles_login_def db_select_single_def db_select_def db_call_def
        login_empty_def login_number_def trip_def profile_A_def profile_B_def toy_bcrypt_def
        field_def eq_def fault_at_def advance_def single_def Let_def)

end
